theory Spec2Isabelle
  imports Main "HOL-Library.AList"
begin

section \<open>Package loader of BEE2: a shallow embedding of packageLoader.py\<close>

text \<open>
  The development follows \<^verbatim>\<open>src/src/packageLoader.py\<close>: the style resolver and the item
  completion engine (\<^verbatim>\<open>setup_style_tree\<close>), the variant patch engine
  (\<^verbatim>\<open>ItemVariant.modify\<close>), the object registry (\<^verbatim>\<open>parse_package\<close>), the export
  assembly (\<^verbatim>\<open>Item._get_export_data\<close>) and the package enable flag
  (\<^verbatim>\<open>Package.enabled\<close>). Python exceptions are values of the type \<open>error\<close>; a function
  that may raise returns \<open>error + 'a\<close>, with \<open>Inl\<close> the exception.
\<close>

subsection \<open>Exceptions\<close>

text \<open>
  One constructor per \<^verbatim>\<open>raise\<close> of the modelled code, carrying the values the message is
  formatted from, and one per built-in exception that a modelled operation can raise.
\<close>

datatype error =
    LoopInBases string
  | DefinedTwice string
  | NoBase string string
  | InvalidStyleBase string string string
  | InvalidStyleReference string string string
  | InvalidIndex string string
  | KeyError string
  | AttributeError string
  | TypeError string
  | ValueError string
  | IndexError string
  | NoKeyIn string string

subsection \<open>Styles and their base chains\<close>

text \<open>
  A \<^verbatim>\<open>Style\<close> object, reduced to the two attributes \<^verbatim>\<open>setup_style_tree\<close> reads:
  \<^verbatim>\<open>id\<close> and \<^verbatim>\<open>base_style\<close> (\<^verbatim>\<open>None\<close> when the style names no base,
  see \<^verbatim>\<open>Style.parse\<close>). The attribute \<^verbatim>\<open>bases\<close> that the resolver assigns is kept
  beside the style, in the result of \<open>resolve_bases\<close>.
\<close>

record style =
  style_id :: string
  base_style :: "string option"

text \<open>
  \<^verbatim>\<open>all_styles\<close> is a Python dict: an association list in insertion order, where
  \<open>AList.update\<close> overwrites a present key in place and appends a new one.
\<close>

type_synonym style_dict = "(string \<times> style) list"

definition build_all_styles :: "style list \<Rightarrow> style_dict" where
  "build_all_styles style_data = foldl (\<lambda>d s. AList.update (style_id s) s d) [] style_data"

text \<open>\<^verbatim>\<open>all_styles.get(b_style.base_style, None)\<close>\<close>

definition get_base :: "style_dict \<Rightarrow> style \<Rightarrow> style option" where
  "get_base all_styles b_style =
     (case base_style b_style of None \<Rightarrow> None | Some k \<Rightarrow> map_of all_styles k)"

definition unvisited :: "style_dict \<Rightarrow> style list \<Rightarrow> nat" where
  "unvisited all_styles base = card (snd ` set all_styles - set base)"

text \<open>
  The \<^verbatim>\<open>while b_style is not None\<close> loop of \<^verbatim>\<open>setup_style_tree\<close>: \<open>base\<close> is the list
  built so far and the third argument is \<^verbatim>\<open>b_style\<close>. The loop raises when it meets a
  style that is already in \<open>base\<close>. It terminates because every round adds a style that
  was not in \<open>base\<close>, and all but the first come out of the finite dict.
\<close>

function find_bases :: "style_dict \<Rightarrow> style list \<Rightarrow> style option \<Rightarrow> error + style list" where
  "find_bases all_styles base None = Inr base"
| "find_bases all_styles base (Some b_style) =
     (if b_style \<in> set base then Inl (LoopInBases (style_id b_style))
      else find_bases all_styles (base @ [b_style]) (get_base all_styles b_style))"
  by pat_completeness auto
termination
proof (relation "measure (\<lambda>(all_styles, base, cur).
          2 * unvisited all_styles base +
          (case cur of None \<Rightarrow> 0 | Some b \<Rightarrow> if b \<in> snd ` set all_styles then 1 else 2))")
  show "wf (measure (\<lambda>(all_styles, base, cur).
          2 * unvisited all_styles base +
          (case cur of None \<Rightarrow> 0 | Some b \<Rightarrow> if b \<in> snd ` set all_styles then 1 else 2)))"
    by simp
next
  fix all_styles :: style_dict and base :: "style list" and b_style :: style
  assume fresh: "b_style \<notin> set base"
  have nxt: "(case get_base all_styles b_style of None \<Rightarrow> 0
               | Some b \<Rightarrow> if b \<in> snd ` set all_styles then 1 else 2) \<le> (1::nat)"
    by (auto simp: get_base_def split: option.splits dest!: map_of_SomeD intro: rev_image_eqI)
  show "((all_styles, base @ [b_style], get_base all_styles b_style),
         (all_styles, base, Some b_style)) \<in> measure (\<lambda>(all_styles, base, cur).
          2 * unvisited all_styles base +
          (case cur of None \<Rightarrow> 0 | Some b \<Rightarrow> if b \<in> snd ` set all_styles then 1 else 2))"
  proof (cases "b_style \<in> snd ` set all_styles")
    case True
    have "snd ` set all_styles - set (base @ [b_style]) = (snd ` set all_styles - set base) - {b_style}"
      by auto
    moreover have "b_style \<in> snd ` set all_styles - set base" using True fresh by simp
    ultimately have "unvisited all_styles (base @ [b_style]) < unvisited all_styles base"
      unfolding unvisited_def by (metis List.finite_set card_Diff1_less finite_Diff finite_imageI)
    with nxt True show ?thesis by simp
  next
    case False
    have "snd ` set all_styles - set (base @ [b_style]) = snd ` set all_styles - set base"
      using False by auto
    then have "unvisited all_styles (base @ [b_style]) = unvisited all_styles base"
      unfolding unvisited_def by simp
    with nxt False show ?thesis by simp
  qed
qed

text \<open>
  \<^verbatim>\<open>for style in all_styles.values(): ... style.bases = base\<close>. The result pairs each key
  of the dict with the \<^verbatim>\<open>bases\<close> list of its style, in the order of the dict; the first
  loop that raises ends the whole resolution.
\<close>

fun set_bases :: "style_dict \<Rightarrow> style_dict \<Rightarrow> error + (string \<times> style list) list" where
  "set_bases all_styles [] = Inr []"
| "set_bases all_styles ((sty_id, s) # rest) =
     (case find_bases all_styles [] (Some s) of
        Inl e \<Rightarrow> Inl e
      | Inr base \<Rightarrow>
          (case set_bases all_styles rest of
             Inl e \<Rightarrow> Inl e
           | Inr others \<Rightarrow> Inr ((sty_id, base) # others)))"

definition resolve_bases :: "style_dict \<Rightarrow> error + (string \<times> style list) list" where
  "resolve_bases all_styles = set_bases all_styles all_styles"

text \<open>
  For stating the properties of the chains: the \<open>n\<close>-th ancestor of a style (following
  \<^verbatim>\<open>base_style\<close> through the dict \<open>n\<close> times), a style whose ancestors repeat, and a
  style that is its own ancestor.
\<close>

fun ancestor :: "style_dict \<Rightarrow> nat \<Rightarrow> style \<Rightarrow> style option" where
  "ancestor all_styles 0 s = Some s"
| "ancestor all_styles (Suc n) s =
     (case ancestor all_styles n s of None \<Rightarrow> None | Some t \<Rightarrow> get_base all_styles t)"

definition has_loop :: "style_dict \<Rightarrow> style \<Rightarrow> bool" where
  "has_loop all_styles s \<longleftrightarrow>
     (\<exists>i j. i < j \<and> ancestor all_styles i s = ancestor all_styles j s \<and> ancestor all_styles j s \<noteq> None)"

definition on_cycle :: "style_dict \<Rightarrow> style \<Rightarrow> bool" where
  "on_cycle all_styles t \<longleftrightarrow> (\<exists>n. 0 < n \<and> ancestor all_styles n t = Some t)"

subsection \<open>Strings\<close>

text \<open>
  \<^verbatim>\<open>str.casefold()\<close> on ASCII text: the letters \<^verbatim>\<open>A\<close> to \<^verbatim>\<open>Z\<close> become lower case,
  every other character stays. (Characters outside ASCII are outside this model.)
\<close>

definition lower_char :: "char \<Rightarrow> char" where
  "lower_char c =
     (case map_of (zip ''ABCDEFGHIJKLMNOPQRSTUVWXYZ'' ''abcdefghijklmnopqrstuvwxyz'') c of
        None \<Rightarrow> c | Some l \<Rightarrow> l)"

definition casefold :: "string \<Rightarrow> string" where
  "casefold s = map lower_char s"

text \<open>\<^verbatim>\<open>str.strip()\<close>: ASCII white space is removed at both ends.\<close>

definition is_space :: "char \<Rightarrow> bool" where
  "is_space c \<longleftrightarrow> c \<in> set [CHR '' '', CHR 0x09, CHR 0x0A, CHR 0x0B, CHR 0x0C, CHR 0x0D]"

definition strip :: "string \<Rightarrow> string" where
  "strip s = rev (dropWhile is_space (rev (dropWhile is_space s)))"

text \<open>\<^verbatim>\<open>str.split(delim)\<close> for a delimiter of one character.\<close>

fun split_on :: "char \<Rightarrow> string \<Rightarrow> string list" where
  "split_on d [] = [[]]"
| "split_on d (c # cs) =
     (if c = d then [] # split_on d cs
      else (case split_on d cs of [] \<Rightarrow> [[c]] | w # ws \<Rightarrow> (c # w) # ws))"

definition is_digit :: "char \<Rightarrow> bool" where
  "is_digit c \<longleftrightarrow> c \<in> set ''0123456789''"

definition digit_val :: "char \<Rightarrow> nat" where
  "digit_val c = (case map_of (zip ''0123456789'' [0, 1, 2, 3, 4, 5, 6, 7, 8, 9]) c of
                    None \<Rightarrow> 0 | Some d \<Rightarrow> d)"

text \<open>
  The digits of a Python integer literal as \<^verbatim>\<open>int()\<close> reads them: decimal digits, where
  a single underscore may stand between two digits. The flag says whether the character
  before was a digit.
\<close>

fun parse_digits :: "nat \<Rightarrow> bool \<Rightarrow> string \<Rightarrow> nat option" where
  "parse_digits acc prev [] = (if prev then Some acc else None)"
| "parse_digits acc prev (c # cs) =
     (if is_digit c then parse_digits (acc * 10 + digit_val c) True cs
      else if c = CHR ''_'' \<and> prev then parse_digits acc False cs
      else None)"

text \<open>
  \<^verbatim>\<open>int(s)\<close> for a string: white space around the number is ignored, one sign may come
  first; \<open>None\<close> stands for \<^verbatim>\<open>ValueError\<close>.
\<close>

definition py_int :: "string \<Rightarrow> int option" where
  "py_int s =
     (case strip s of
        [] \<Rightarrow> None
      | c # cs \<Rightarrow>
          if c = CHR ''-'' then map_option (\<lambda>n. - int n) (parse_digits 0 False cs)
          else if c = CHR ''+'' then map_option int (parse_digits 0 False cs)
          else map_option int (parse_digits 0 False (c # cs)))"

text \<open>\<^verbatim>\<open>str(n)\<close> for an integer.\<close>

fun digits_of :: "nat \<Rightarrow> nat \<Rightarrow> string" where
  "digits_of 0 n = ''''"
| "digits_of (Suc fuel) n =
     (if n < 10 then [''0123456789'' ! n]
      else digits_of fuel (n div 10) @ [''0123456789'' ! (n mod 10)])"

definition str_nat :: "nat \<Rightarrow> string" where
  "str_nat n = digits_of (Suc n) n"

definition str_int :: "int \<Rightarrow> string" where
  "str_int i = (if i < 0 then CHR ''-'' # str_nat (nat (- i)) else str_nat (nat i))"

text \<open>
  \<^verbatim>\<open>xs[i]\<close> on a Python list: a negative index counts from the end, and an index out
  of range raises \<^verbatim>\<open>IndexError\<close> (\<open>None\<close>). The result is the position read.
\<close>

definition py_index :: "nat \<Rightarrow> int \<Rightarrow> nat option" where
  "py_index n i =
     (let j = (if i < 0 then int n + i else i)
      in if 0 \<le> j \<and> j < int n then Some (nat j) else None)"

subsection \<open>Property trees\<close>

text \<open>
  Modelled from the spec: the class \<^verbatim>\<open>srctools.Property\<close> is imported by
  \<^verbatim>\<open>packageLoader.py\<close> and is not among the sources. The spec describes it as an
  ordered tree of string values whose keys may repeat. A property has a name as written
  (\<^verbatim>\<open>real_name\<close>, \<^verbatim>\<open>None\<close> for a bare collection of blocks) and either a string value
  (a leaf) or an ordered list of child properties (a block). Names are compared after
  case folding. A search for a key sees the children of a block and nothing in a leaf,
  and where one property is asked for by key, the last child of that name answers.
  \<^verbatim>\<open>copy()\<close> is a deep copy, which is the identity on values.
\<close>

datatype property =
    Leaf (real_name: "string option") string
  | Block (real_name: "string option") "property list"

text \<open>The value of a property as Python sees it: a string or a list of properties.\<close>

datatype pyval = VStr string | VList "property list"

definition pvalue :: "property \<Rightarrow> pyval" where
  "pvalue p = (case p of Leaf n s \<Rightarrow> VStr s | Block n ks \<Rightarrow> VList ks)"

definition mk_property :: "string option \<Rightarrow> pyval \<Rightarrow> property" where
  "mk_property n v = (case v of VStr s \<Rightarrow> Leaf n s | VList ks \<Rightarrow> Block n ks)"

text \<open>\<^verbatim>\<open>Property.name\<close>: the case-folded name.\<close>

definition pname :: "property \<Rightarrow> string option" where
  "pname p = map_option casefold (real_name p)"

definition named :: "string \<Rightarrow> property \<Rightarrow> bool" where
  "named key p \<longleftrightarrow> pname p = Some (casefold key)"

definition has_children :: "property \<Rightarrow> bool" where
  "has_children p = (case p of Leaf n s \<Rightarrow> False | Block n ks \<Rightarrow> True)"

definition children :: "property \<Rightarrow> property list" where
  "children p = (case p of Leaf n s \<Rightarrow> [] | Block n ks \<Rightarrow> ks)"

definition set_children :: "property \<Rightarrow> property list \<Rightarrow> property" where
  "set_children p ks = Block (real_name p) ks"

definition set_name :: "string \<Rightarrow> property \<Rightarrow> property" where
  "set_name n p = (case p of Leaf m s \<Rightarrow> Leaf (Some n) s | Block m ks \<Rightarrow> Block (Some n) ks)"

text \<open>Truth of a value in a condition: \<^verbatim>\<open>None\<close>, \<^verbatim>\<open>''\<close> and \<^verbatim>\<open>[]\<close> are false.\<close>

definition truthy :: "pyval option \<Rightarrow> bool" where
  "truthy v = (case v of None \<Rightarrow> False | Some (VStr s) \<Rightarrow> s \<noteq> [] | Some (VList ks) \<Rightarrow> ks \<noteq> [])"

text \<open>\<^verbatim>\<open>key in prop\<close>\<close>

definition contains :: "string \<Rightarrow> property \<Rightarrow> bool" where
  "contains key p = list_ex (named key) (children p)"

text \<open>\<^verbatim>\<open>prop.find_key(key)\<close>; \<open>None\<close> stands for \<^verbatim>\<open>NoKeyError\<close>.\<close>

definition find_key :: "string \<Rightarrow> property \<Rightarrow> property option" where
  "find_key key p = find (named key) (rev (children p))"

text \<open>\<^verbatim>\<open>prop[key, default]\<close>\<close>

definition get_default :: "property \<Rightarrow> string \<Rightarrow> pyval option \<Rightarrow> pyval option" where
  "get_default p key dflt = (case find_key key p of None \<Rightarrow> dflt | Some c \<Rightarrow> Some (pvalue c))"

text \<open>\<^verbatim>\<open>prop[key]\<close>, which raises \<^verbatim>\<open>IndexError\<close> when the key is missing.\<close>

definition get_item :: "property \<Rightarrow> string \<Rightarrow> error + pyval" where
  "get_item p key = (case find_key key p of None \<Rightarrow> Inl (IndexError key) | Some c \<Rightarrow> Inr (pvalue c))"

text \<open>
  \<^verbatim>\<open>prop.find_all(key1, ..., keyn)\<close>: the properties at the end of every path of
  children with these names, in document order; only blocks are entered.
\<close>

fun find_all :: "string list \<Rightarrow> property \<Rightarrow> property list" where
  "find_all [] p = []"
| "find_all [key] p = filter (named key) (children p)"
| "find_all (key # keys) p =
     concat (map (find_all keys) (filter (\<lambda>c. named key c \<and> has_children c) (children p)))"

text \<open>\<^verbatim>\<open>prop.find_children(key1, ..., keyn)\<close>: the children of the blocks found.\<close>

definition find_children :: "string list \<Rightarrow> property \<Rightarrow> property list" where
  "find_children keys p = concat (map children (find_all keys p))"

text \<open>
  Editing. Python changes a property in place through a reference; here every edit
  returns the new tree. The helpers below edit the children of one property.
\<close>

text \<open>Replace the last element that satisfies \<open>P\<close>.\<close>

fun update_last :: "('a \<Rightarrow> bool) \<Rightarrow> ('a \<Rightarrow> 'a) \<Rightarrow> 'a list \<Rightarrow> 'a list" where
  "update_last P f [] = []"
| "update_last P f (x # xs) =
     (if list_ex P xs then x # update_last P f xs
      else if P x then f x # xs else x # xs)"

text \<open>Remove the last element that satisfies \<open>P\<close>.\<close>

fun remove_last :: "('a \<Rightarrow> bool) \<Rightarrow> 'a list \<Rightarrow> 'a list" where
  "remove_last P [] = []"
| "remove_last P (x # xs) =
     (if list_ex P xs then x # remove_last P xs
      else if P x then xs else x # xs)"

text \<open>\<^verbatim>\<open>prop.append(child)\<close>\<close>

definition append_child :: "property \<Rightarrow> property \<Rightarrow> property" where
  "append_child child p = set_children p (children p @ [child])"

text \<open>
  \<^verbatim>\<open>prop[key] = value\<close>: the last child of that name gets the value; without one, a
  new child is appended.
\<close>

definition set_item :: "string \<Rightarrow> pyval \<Rightarrow> property \<Rightarrow> property" where
  "set_item key v p =
     (if contains key p
      then set_children p (update_last (named key) (\<lambda>c. mk_property (real_name c) v) (children p))
      else append_child (mk_property (Some key) v) p)"

text \<open>
  \<^verbatim>\<open>del prop[key]\<close> removes the last child of that name, and raises
  \<^verbatim>\<open>IndexError\<close> when no child has the name.
\<close>

definition del_key :: "string \<Rightarrow> property \<Rightarrow> property" where
  "del_key key p = set_children p (remove_last (named key) (children p))"

definition del_item :: "string \<Rightarrow> property \<Rightarrow> error + property" where
  "del_item key p = (if contains key p then Inr (del_key key p) else Inl (IndexError key))"

text \<open>
  \<^verbatim>\<open>prop.ensure_exists(key)\<close> returns the child of that name, appending an empty
  block first when there is none. \<open>ensure_exists\<close> is the parent after the call and
  \<open>in_child key f\<close> edits the child the call returns.
\<close>

definition ensure_exists :: "string \<Rightarrow> property \<Rightarrow> property" where
  "ensure_exists key p = (if contains key p then p else append_child (Block (Some key) []) p)"

definition in_child :: "string \<Rightarrow> (property \<Rightarrow> property) \<Rightarrow> property \<Rightarrow> property" where
  "in_child key f p = set_children p (update_last (named key) f (children p))"

text \<open>
  A loop \<^verbatim>\<open>for x in prop.find_all(keys): body\<close> whose body edits \<^verbatim>\<open>x\<close> in place:
  \<open>visit_all keys body s p\<close> runs the body on every property found, in order, threading
  the state \<open>s\<close> of the loop (a counter, a log) through the calls.
\<close>

fun map_accum :: "('s \<Rightarrow> 'a \<Rightarrow> 's \<times> 'a) \<Rightarrow> 's \<Rightarrow> 'a list \<Rightarrow> 's \<times> 'a list" where
  "map_accum f s [] = (s, [])"
| "map_accum f s (x # xs) =
     (case f s x of (s1, y) \<Rightarrow> (case map_accum f s1 xs of (s2, ys) \<Rightarrow> (s2, y # ys)))"

primrec visit_all :: "string list \<Rightarrow> ('s \<Rightarrow> property \<Rightarrow> 's \<times> property) \<Rightarrow> 's \<Rightarrow> property \<Rightarrow> 's \<times> property" where
  "visit_all [] body = (\<lambda>s p. (s, p))"
| "visit_all (key # keys) body =
     (\<lambda>s p. case p of
        Leaf n v \<Rightarrow> (s, p)
      | Block n ks \<Rightarrow>
          (case map_accum
                  (\<lambda>s1 c. if \<not> named key c then (s1, c)
                           else if keys = [] then body s1 c
                           else if has_children c then visit_all keys body s1 c
                           else (s1, c))
                  s ks of
             (s2, ks2) \<Rightarrow> (s2, Block n ks2)))"

subsection \<open>Item variants and the patch engine\<close>

text \<open>\<^verbatim>\<open>sep_values(string)\<close> with the default delimiters \<^verbatim>\<open>,;/\<close>.\<close>

definition sep_values :: "string \<Rightarrow> string list" where
  "sep_values s =
     (if s = [] then []
      else filter (\<lambda>w. w \<noteq> [])
             (map strip (split_on CHR '','' (map (\<lambda>c. if c = CHR '';'' \<or> c = CHR ''/'' then CHR '','' else c) s))))"

text \<open>
  \<^verbatim>\<open>sep_values(props[key, ''])\<close>: the value read may be the child list of a block, on
  which \<^verbatim>\<open>string.replace\<close> raises \<^verbatim>\<open>AttributeError\<close>.
\<close>

definition sep_values_of :: "property \<Rightarrow> string \<Rightarrow> error + string list" where
  "sep_values_of props key =
     (case get_default props key (Some (VStr [])) of
        Some (VStr s) \<Rightarrow> Inr (sep_values s)
      | Some (VList ks) \<Rightarrow> Inl (AttributeError ''replace'')
      | None \<Rightarrow> Inl (AttributeError ''replace''))"

text \<open>\<^verbatim>\<open>'\n'.join(lines)\<close>\<close>

fun join_lines :: "string list \<Rightarrow> string" where
  "join_lines [] = []"
| "join_lines [l] = l"
| "join_lines (l # ls) = l @ [CHR 0x0A] @ join_lines ls"

text \<open>
  \<^verbatim>\<open>desc_parse(info)\<close>. Modelled from the spec: \<^verbatim>\<open>tkMarkdown.convert\<close> is not among
  the sources; a description (\<^verbatim>\<open>MarkdownData\<close>) is represented by the text it is
  converted from. A line that is itself a block makes \<^verbatim>\<open>join\<close> raise
  \<^verbatim>\<open>TypeError\<close>. The warning about the old format only writes to the log.
\<close>

definition desc_lines :: "property \<Rightarrow> pyval list" where
  "desc_lines info =
     concat (map (\<lambda>prop. if has_children prop then map pvalue (children prop) else [pvalue prop])
                 (find_all [''description''] info))"

definition str_of :: "pyval \<Rightarrow> string option" where
  "str_of v = (case v of VStr s \<Rightarrow> Some s | VList ks \<Rightarrow> None)"

definition desc_parse :: "property \<Rightarrow> error + string" where
  "desc_parse info =
     (if list_all (\<lambda>v. str_of v \<noteq> None) (desc_lines info)
      then Inr (join_lines (map (\<lambda>v. the (str_of v)) (desc_lines info)))
      else Inl (TypeError ''join''))"

text \<open>
  An \<^verbatim>\<open>ItemVariant\<close>, by value. \<^verbatim>\<open>editor_extra\<close> is always built as
  \<^verbatim>\<open>Property(None, list(editor_extra))\<close>, so the field holds that list. Values read
  from property trees (\<^verbatim>\<open>ent_count\<close>, \<^verbatim>\<open>url\<close>, the icons, the grouped name and icon)
  are Python values, \<open>None\<close> for \<^verbatim>\<open>None\<close>.
\<close>

record item_variant =
  editor :: property
  editor_extra :: "property list"
  vbsp_config :: property
  source :: string
  authors :: "string list"
  tags :: "string list"
  desc :: string
  icons :: "(string \<times> pyval) list"
  ent_count :: "pyval option"
  url :: "pyval option"
  all_name :: "pyval option"
  all_icon :: "pyval option"

text \<open>\<^verbatim>\<open>vbsp_config.name = None\<close>\<close>

definition clear_name :: "property \<Rightarrow> property" where
  "clear_name p = (case p of Leaf n s \<Rightarrow> Leaf None s | Block n ks \<Rightarrow> Block None ks)"

text \<open>\<^verbatim>\<open>'{} from {}'.format(source, self.source)\<close>\<close>

definition from_source :: "string \<Rightarrow> string \<Rightarrow> string" where
  "from_source src base_src = src @ '' from '' @ base_src"

text \<open>
  The first part of \<^verbatim>\<open>ItemVariant.modify\<close>: the new \<^verbatim>\<open>ItemVariant\<close> as its
  constructor is called, before the palette and instance overrides.
\<close>

definition modify_init :: "item_variant \<Rightarrow> property \<Rightarrow> string \<Rightarrow> error + item_variant" where
  "modify_init self props src =
     (let new_config =
            (if contains ''config'' props
             then (case find_key ''config'' props of None \<Rightarrow> vbsp_config self | Some c \<Rightarrow> clear_name c)
             else vbsp_config self)
      in case (if contains ''description'' props then desc_parse props else Inr (desc self)) of
           Inl e \<Rightarrow> Inl e
         | Inr new_desc \<Rightarrow>
        (case (if contains ''authors'' props then sep_values_of props ''authors'' else Inr (authors self)) of
           Inl e \<Rightarrow> Inl e
         | Inr new_authors \<Rightarrow>
        (case (if contains ''tags'' props then sep_values_of props ''tags'' else Inr (tags self)) of
           Inl e \<Rightarrow> Inl e
         | Inr new_tags \<Rightarrow>
             Inr \<lparr> editor = editor self,
                   editor_extra = editor_extra self,
                   vbsp_config = new_config,
                   source = from_source src (source self),
                   authors = new_authors,
                   tags = new_tags,
                   desc = new_desc,
                   icons = icons self,
                   ent_count = get_default props ''ent_count'' (ent_count self),
                   url = get_default props ''url'' (url self),
                   all_name = all_name self,
                   all_icon = all_icon self \<rparr>)))"

text \<open>
  \<^verbatim>\<open>subtypes = list(variant.editor.find_all('Editor', 'SubType'))\<close> holds references
  into the editor block; \<^verbatim>\<open>subtypes[i]\<close> is then edited in place. \<open>edit_subtype i f\<close>
  applies \<open>f\<close> to the \<open>i\<close>-th property that \<open>find_all\<close> finds. The edits below change
  only what is inside a subtype, so the \<open>i\<close>-th subtype stays the \<open>i\<close>-th.
\<close>

definition edit_subtype :: "nat \<Rightarrow> (property \<Rightarrow> property) \<Rightarrow> property \<Rightarrow> property" where
  "edit_subtype i f ed =
     snd (visit_all [''Editor'', ''SubType'']
            (\<lambda>k sub. (Suc k, if k = i then f sub else sub)) (0::nat) ed)"

text \<open>
  The model override of one palette entry: every \<^verbatim>\<open>Model\<close> child of the subtype is
  deleted (the \<^verbatim>\<open>while 'model' in subtype: del subtype['model']\<close> loop removes them one
  at a time until none is left), then one \<^verbatim>\<open>Model\<close> block per model is appended.
\<close>

definition model_names :: "property \<Rightarrow> pyval list" where
  "model_names model_prop =
     (if has_children model_prop then map pvalue (children model_prop) else [pvalue model_prop])"

definition find_model_prop :: "property \<Rightarrow> property option" where
  "find_model_prop item =
     (case find_key ''Models'' item of Some m \<Rightarrow> Some m | None \<Rightarrow> find_key ''Model'' item)"

definition set_models :: "pyval list \<Rightarrow> property \<Rightarrow> property" where
  "set_models models subtype =
     set_children subtype
       (filter (\<lambda>c. \<not> named ''model'' c) (children subtype)
        @ map (\<lambda>m. Block (Some ''Model'') [mk_property (Some ''ModelName'') m]) models)"

definition set_palette :: "pyval option \<Rightarrow> pyval option \<Rightarrow> property \<Rightarrow> property" where
  "set_palette pal_name pal_icon subtype =
     (if truthy pal_name \<or> truthy pal_icon
      then in_child ''Palette''
             (\<lambda>palette.
                (let p1 = (if truthy pal_name then set_item ''Tooltip'' (the pal_name) palette else palette)
                 in if truthy pal_icon then set_item ''Image'' (the pal_icon) p1 else p1))
             (ensure_exists ''Palette'' subtype)
      else subtype)"

text \<open>What one round of the palette loop does to the subtype it names.\<close>

definition patch_subtype :: "property \<Rightarrow> property \<Rightarrow> property" where
  "patch_subtype item subtype =
     (let s1 = (case find_model_prop item of
                  None \<Rightarrow> subtype
                | Some model_prop \<Rightarrow> set_models (model_names model_prop) subtype);
          s2 = (if truthy (get_default item ''name'' None)
                then set_item ''name'' (the (get_default item ''name'' None)) s1 else s1)
      in set_palette (get_default item ''pal_name'' None) (get_default item ''icon'' None) s2)"

text \<open>\<^verbatim>\<open>'{}'.format(item.name)\<close>\<close>

definition show_name :: "string option \<Rightarrow> string" where
  "show_name n = (case n of None \<Rightarrow> ''None'' | Some s \<Rightarrow> s)"

text \<open>
  \<^verbatim>\<open>subtypes[int(item.name)]\<close> inside \<^verbatim>\<open>try\<close>: \<open>None\<close> when \<^verbatim>\<open>int\<close> raises
  \<^verbatim>\<open>ValueError\<close> (not a number) or \<^verbatim>\<open>TypeError\<close> (the name is \<^verbatim>\<open>None\<close>), or the
  list raises \<^verbatim>\<open>IndexError\<close>.
\<close>

definition subtype_index :: "nat \<Rightarrow> string option \<Rightarrow> nat option" where
  "subtype_index n name =
     (case name of
        None \<Rightarrow> None
      | Some s \<Rightarrow> (case py_int s of None \<Rightarrow> None | Some i \<Rightarrow> py_index n i))"

text \<open>
  One round of \<^verbatim>\<open>for item in props.find_children('Palette')\<close>; \<open>n\<close> is
  \<^verbatim>\<open>len(subtypes)\<close>.
\<close>

definition palette_step :: "nat \<Rightarrow> string \<Rightarrow> item_variant \<Rightarrow> property \<Rightarrow> error + item_variant" where
  "palette_step n src variant item =
     (let pal_icon = get_default item ''icon'' None;
          pal_name = get_default item ''pal_name'' None;
          bee2_icon = get_default item ''bee2'' None
      in if pname item = Some ''all''
         then Inr (variant \<lparr> all_icon := pal_icon, all_name := pal_name,
                             icons := (if truthy bee2_icon
                                       then AList.update ''all'' (the bee2_icon) (icons variant)
                                       else icons variant) \<rparr>)
         else (case subtype_index n (pname item) of
                 None \<Rightarrow> Inl (InvalidIndex (show_name (pname item)) src)
               | Some i \<Rightarrow>
                   Inr (variant \<lparr> editor := edit_subtype i (patch_subtype item) (editor variant),
                                   icons := (if truthy bee2_icon
                                             then AList.update (the (pname item)) (the bee2_icon) (icons variant)
                                             else icons variant) \<rparr>)))"

fun palette_loop :: "nat \<Rightarrow> string \<Rightarrow> item_variant \<Rightarrow> property list \<Rightarrow> error + item_variant" where
  "palette_loop n src variant [] = Inr variant"
| "palette_loop n src variant (item # items) =
     (case palette_step n src variant item of
        Inl e \<Rightarrow> Inl e
      | Inr v \<Rightarrow> palette_loop n src v items)"

text \<open>\<^verbatim>\<open>str.isdecimal()\<close> on ASCII text.\<close>

definition isdecimal :: "string \<Rightarrow> bool" where
  "isdecimal s \<longleftrightarrow> s \<noteq> [] \<and> list_all is_digit s"

text \<open>
  One round of \<^verbatim>\<open>for inst in props.find_children('Instances')\<close>, on the
  \<^verbatim>\<open>Instances\<close> block. A property without a name makes \<^verbatim>\<open>del instances[None]\<close>
  raise \<^verbatim>\<open>AttributeError\<close>.
\<close>

definition instance_step :: "property \<Rightarrow> property \<Rightarrow> error + property" where
  "instance_step instances inst =
     (case real_name inst of
        None \<Rightarrow> Inl (AttributeError ''casefold'')
      | Some rn \<Rightarrow>
          (let cleared = (case del_item rn instances of Inl e \<Rightarrow> instances | Inr b \<Rightarrow> b)
           in if has_children inst \<or> \<not> isdecimal (casefold rn)
              then Inr (append_child inst cleared)
              else Inr (append_child (Block (Some rn) [mk_property (Some ''Name'') (pvalue inst)]) cleared)))"

fun instance_loop :: "property \<Rightarrow> property list \<Rightarrow> error + property" where
  "instance_loop instances [] = Inr instances"
| "instance_loop instances (inst # insts) =
     (case instance_step instances inst of
        Inl e \<Rightarrow> Inl e
      | Inr b \<Rightarrow> instance_loop b insts)"

text \<open>
  \<^verbatim>\<open>instances = variant.editor.ensure_exists('Exporting').ensure_exists('Instances')\<close>
  leaves the editor block with both blocks present.
\<close>

definition ensure_instances :: "property \<Rightarrow> property" where
  "ensure_instances ed = in_child ''Exporting'' (ensure_exists ''Instances'') (ensure_exists ''Exporting'' ed)"

definition the_instances :: "property \<Rightarrow> property" where
  "the_instances ed =
     (case find_key ''Exporting'' ed of
        None \<Rightarrow> Block (Some ''Instances'') []
      | Some ex \<Rightarrow> (case find_key ''Instances'' ex of None \<Rightarrow> Block (Some ''Instances'') [] | Some i \<Rightarrow> i))"

definition put_instances :: "property \<Rightarrow> property \<Rightarrow> property" where
  "put_instances instances ed = in_child ''Exporting'' (in_child ''Instances'' (\<lambda>old. instances)) ed"

text \<open>\<^verbatim>\<open>ItemVariant.modify(self, props, source)\<close>\<close>

definition modify :: "item_variant \<Rightarrow> property \<Rightarrow> string \<Rightarrow> error + item_variant" where
  "modify self props src =
     (case modify_init self props src of
        Inl e \<Rightarrow> Inl e
      | Inr variant \<Rightarrow>
          (case palette_loop (length (find_all [''Editor'', ''SubType''] (editor variant))) src
                  variant (find_children [''Palette''] props) of
             Inl e \<Rightarrow> Inl e
           | Inr v1 \<Rightarrow>
               (let ed = ensure_instances (editor v1)
                in case instance_loop (the_instances ed) (find_children [''Instances''] props) of
                     Inl e \<Rightarrow> Inl e
                   | Inr instances \<Rightarrow> Inr (v1 \<lparr> editor := put_instances instances ed \<rparr>))))"

subsection \<open>The mutable parts of a variant as objects\<close>

text \<open>
  To speak of sharing, the mutable attributes of an \<^verbatim>\<open>ItemVariant\<close> are objects of a
  store: the property trees, the \<^verbatim>\<open>editor_extra\<close> collection, the lists of authors and
  tags, the description and the icon dict. An address is a position of the store, and a
  new object is put at the end. A tree that \<^verbatim>\<open>copy()\<close> returns shares nothing with its
  original, so a tree is one object here.
\<close>

datatype obj =
    PropObj property
  | ExtraObj "property list"
  | StrListObj "string list"
  | DescObj string
  | IconsObj "(string \<times> pyval) list"

type_synonym heap = "obj list"

record variant_ref =
  editor_at :: nat
  editor_extra_at :: nat
  vbsp_config_at :: nat
  authors_at :: nat
  tags_at :: nat
  desc_at :: nat
  icons_at :: nat
  source_of :: string
  ent_count_of :: "pyval option"
  url_of :: "pyval option"
  all_name_of :: "pyval option"
  all_icon_of :: "pyval option"

definition prop_at :: "heap \<Rightarrow> nat \<Rightarrow> property option" where
  "prop_at h a = (if a < length h then (case h ! a of PropObj p \<Rightarrow> Some p | _ \<Rightarrow> None) else None)"

definition extra_at :: "heap \<Rightarrow> nat \<Rightarrow> property list option" where
  "extra_at h a = (if a < length h then (case h ! a of ExtraObj ps \<Rightarrow> Some ps | _ \<Rightarrow> None) else None)"

definition strs_at :: "heap \<Rightarrow> nat \<Rightarrow> string list option" where
  "strs_at h a = (if a < length h then (case h ! a of StrListObj ss \<Rightarrow> Some ss | _ \<Rightarrow> None) else None)"

definition text_at :: "heap \<Rightarrow> nat \<Rightarrow> string option" where
  "text_at h a = (if a < length h then (case h ! a of DescObj d \<Rightarrow> Some d | _ \<Rightarrow> None) else None)"

definition icons_in :: "heap \<Rightarrow> nat \<Rightarrow> (string \<times> pyval) list option" where
  "icons_in h a = (if a < length h then (case h ! a of IconsObj d \<Rightarrow> Some d | _ \<Rightarrow> None) else None)"

text \<open>The variant an \<^verbatim>\<open>ItemVariant\<close> object stands for; \<open>None\<close> when it is not one of the store.\<close>

definition load :: "heap \<Rightarrow> variant_ref \<Rightarrow> item_variant option" where
  "load h r =
     (case prop_at h (editor_at r) of None \<Rightarrow> None | Some ed \<Rightarrow>
      case extra_at h (editor_extra_at r) of None \<Rightarrow> None | Some ex \<Rightarrow>
      case prop_at h (vbsp_config_at r) of None \<Rightarrow> None | Some conf \<Rightarrow>
      case strs_at h (authors_at r) of None \<Rightarrow> None | Some au \<Rightarrow>
      case strs_at h (tags_at r) of None \<Rightarrow> None | Some tg \<Rightarrow>
      case text_at h (desc_at r) of None \<Rightarrow> None | Some de \<Rightarrow>
      case icons_in h (icons_at r) of None \<Rightarrow> None | Some ic \<Rightarrow>
        Some \<lparr> editor = ed, editor_extra = ex, vbsp_config = conf, source = source_of r,
               authors = au, tags = tg, desc = de, icons = ic, ent_count = ent_count_of r,
               url = url_of r, all_name = all_name_of r, all_icon = all_icon_of r \<rparr>)"

text \<open>The addresses an \<^verbatim>\<open>ItemVariant\<close> object refers to.\<close>

definition addresses :: "variant_ref \<Rightarrow> nat set" where
  "addresses r = {editor_at r, editor_extra_at r, vbsp_config_at r, authors_at r, tags_at r,
                  desc_at r, icons_at r}"

text \<open>
  \<^verbatim>\<open>ItemVariant.modify\<close> on objects. The values are those of \<open>modify\<close>. The new
  variant gets new objects for \<^verbatim>\<open>vbsp_config\<close> (a copy), \<^verbatim>\<open>desc\<close> (parsed or a copy),
  \<^verbatim>\<open>tags\<close> (parsed or a copy), \<^verbatim>\<open>editor\<close> (a copy), \<^verbatim>\<open>editor_extra\<close> (a new
  collection) and \<^verbatim>\<open>icons\<close> (a copy); every later edit of \<^verbatim>\<open>modify\<close> goes to these.
  \<^verbatim>\<open>authors\<close> is a new list when the delta has the key and is
  \<^verbatim>\<open>self.authors\<close> itself, the object of the base, when it has not. The objects of the
  store are left as they are.
\<close>

definition modify_obj :: "heap \<Rightarrow> variant_ref \<Rightarrow> property \<Rightarrow> string \<Rightarrow> (error + heap \<times> variant_ref) option" where
  "modify_obj h self props src =
     (case load h self of
        None \<Rightarrow> None
      | Some base \<Rightarrow>
          Some (case modify base props src of
                  Inl e \<Rightarrow> Inl e
                | Inr v \<Rightarrow>
                    (let h1 = h @ [PropObj (vbsp_config v), DescObj (desc v)];
                         h2 = (if contains ''authors'' props then h1 @ [StrListObj (authors v)] else h1);
                         h3 = h2 @ [StrListObj (tags v), PropObj (editor v), ExtraObj (editor_extra v),
                                    IconsObj (icons v)]
                     in Inr (h3, \<lparr> editor_at = length h2 + 1,
                                   editor_extra_at = length h2 + 2,
                                   vbsp_config_at = length h,
                                   authors_at = (if contains ''authors'' props then length h1
                                                 else authors_at self),
                                   tags_at = length h2,
                                   desc_at = length h + 1,
                                   icons_at = length h2 + 3,
                                   source_of = source v,
                                   ent_count_of = ent_count v,
                                   url_of = url v,
                                   all_name_of = all_name v,
                                   all_icon_of = all_icon v \<rparr>))))"

text \<open>
  A delta that holds none of the keys \<^verbatim>\<open>modify\<close> reads (an empty block is one), and an
  editor block that already has an \<^verbatim>\<open>Instances\<close> block in its \<^verbatim>\<open>Exporting\<close> block.
\<close>

definition empty_delta :: "property \<Rightarrow> bool" where
  "empty_delta props \<longleftrightarrow>
     \<not> list_ex (\<lambda>key. contains key props)
         [''config'', ''description'', ''authors'', ''tags'', ''ent_count'', ''url'',
          ''Palette'', ''Instances'']"

definition has_instances :: "property \<Rightarrow> bool" where
  "has_instances ed \<longleftrightarrow>
     has_children ed \<and>
     (case find_key ''Exporting'' ed of None \<Rightarrow> False | Some ex \<Rightarrow> has_children ex \<and> contains ''Instances'' ex)"

subsection \<open>Items, versions and the completion of style slots\<close>

text \<open>
  A slot of \<^verbatim>\<open>vers['styles']\<close> as \<^verbatim>\<open>Item.parse\<close> leaves it: an \<^verbatim>\<open>ItemVariant\<close> (every
  folder name has been replaced by the variant parsed from the folder) or a
  \<^verbatim>\<open>Property\<close>. A property without a name is a style lookup (the package writes
  \<^verbatim>\<open><STYLE>\<close>, kept as \<^verbatim>\<open>Property(None, 'STYLE')\<close>), one with a name is a
  modification block.
\<close>

datatype slot = Variant item_variant | PropSlot property

text \<open>
  \<^verbatim>\<open>vers['def_style']\<close>: the name of the first style of the version, \<^verbatim>\<open>None\<close> for a
  version without styles, and after completion the value of that slot.
\<close>

datatype def_style = DefName string | DefNone | DefResolved slot

type_synonym style_map = "(string \<times> slot) list"

record version =
  ver_id :: string
  ver_name :: string
  styles :: style_map
  def_style :: def_style

text \<open>
  An \<^verbatim>\<open>Item\<close>, with the attributes the completion and the export read. \<^verbatim>\<open>item.versions\<close> is a dict
  from version id to version. \<^verbatim>\<open>item.def_ver\<close> is a reference to one of its values (the
  first version parsed), given here by its key.
\<close>

record item =
  item_id :: string
  versions :: "(string \<times> version) list"
  def_ver :: string
  all_conf :: property
  unstyled :: bool

type_synonym bases_map = "(string \<times> style list) list"

text \<open>
  \<^verbatim>\<open>for base_style in style.bases: if base_style.id in vers['styles']: ...; break\<close>:
  the slot of the first style of the chain that has one; \<open>None\<close> is the \<^verbatim>\<open>else\<close>
  branch of the loop.
\<close>

fun first_defined :: "style_map \<Rightarrow> style list \<Rightarrow> slot option" where
  "first_defined sm [] = None"
| "first_defined sm (b # bs) =
     (case map_of sm (style_id b) of Some v \<Rightarrow> Some v | None \<Rightarrow> first_defined sm bs)"

text \<open>\<^verbatim>\<open>vers['styles'][vers['def_style']]\<close>\<close>

definition def_style_slot :: "def_style \<Rightarrow> style_map \<Rightarrow> error + slot" where
  "def_style_slot d sm =
     (case d of
        DefName k \<Rightarrow> (case map_of sm k of None \<Rightarrow> Inl (KeyError k) | Some v \<Rightarrow> Inr v)
      | DefNone \<Rightarrow> Inl (KeyError ''None'')
      | DefResolved v \<Rightarrow> Inl (KeyError ''ItemVariant''))"

text \<open>
  One round of \<^verbatim>\<open>for sty_id, style in all_styles.items()\<close>. \<open>is_def\<close> is
  \<^verbatim>\<open>vers['id'] == item.def_ver['id']\<close> and \<open>def_styles\<close> is
  \<^verbatim>\<open>item.def_ver['styles']\<close>.
\<close>

definition fill_style :: "bool \<Rightarrow> def_style \<Rightarrow> style_map \<Rightarrow> style_map \<Rightarrow> string \<times> style list \<Rightarrow> error + style_map" where
  "fill_style is_def d def_styles sm entry =
     (case entry of (sty_id, bases) \<Rightarrow>
        if map_of sm sty_id \<noteq> None then Inr sm
        else (case first_defined sm bases of
                Some v \<Rightarrow> Inr (AList.update sty_id v sm)
              | None \<Rightarrow>
                  if is_def
                  then (case def_style_slot d sm of
                          Inl e \<Rightarrow> Inl e
                        | Inr v \<Rightarrow> Inr (AList.update sty_id v sm))
                  else (case map_of def_styles sty_id of
                          None \<Rightarrow> Inl (KeyError sty_id)
                        | Some v \<Rightarrow> Inr (AList.update sty_id v sm))))"

fun fill_styles :: "bool \<Rightarrow> def_style \<Rightarrow> style_map \<Rightarrow> style_map \<Rightarrow> bases_map \<Rightarrow> error + style_map" where
  "fill_styles is_def d def_styles sm [] = Inr sm"
| "fill_styles is_def d def_styles sm (entry # entries) =
     (case fill_style is_def d def_styles sm entry of
        Inl e \<Rightarrow> Inl e
      | Inr sm1 \<Rightarrow> fill_styles is_def d def_styles sm1 entries)"

text \<open>\<^verbatim>\<open>'<{}:{}.{}>'.format(item.id, vers['id'], sty_id)\<close>\<close>

definition slot_source :: "string \<Rightarrow> string \<Rightarrow> string \<Rightarrow> string" where
  "slot_source it vid sty_id = ''<'' @ it @ '':'' @ vid @ ''.'' @ sty_id @ ''>''"

text \<open>
  One round of \<^verbatim>\<open>for sty_id, props in vers['styles'].items()\<close>. The loop assigns only
  to keys the dict has, so it runs over the keys the dict had when it started and reads
  the value each key has when its turn comes. The state is the dict and
  \<^verbatim>\<open>style_lookups\<close>. A modification block whose base slot still holds a
  \<^verbatim>\<open>Property\<close> fails on \<^verbatim>\<open>base_variant.modify\<close> (\<^verbatim>\<open>AttributeError\<close>), and a
  \<^verbatim>\<open>base\<close> that is a block fails as a dict key (\<^verbatim>\<open>TypeError\<close>).
\<close>

definition eval_mod :: "string \<Rightarrow> string \<Rightarrow> style_map \<times> (string \<times> pyval) list \<Rightarrow> string
    \<Rightarrow> error + style_map \<times> (string \<times> pyval) list" where
  "eval_mod it vid st sty_id =
     (case st of (sm, style_lookups) \<Rightarrow>
        (case map_of sm sty_id of
           None \<Rightarrow> Inr st
         | Some (Variant v) \<Rightarrow> Inr st
         | Some (PropSlot props) \<Rightarrow>
             if pname props = None then Inr (sm, AList.update sty_id (pvalue props) style_lookups)
             else (case get_default props ''base'' (Some (VStr [])) of
                     Some (VStr base) \<Rightarrow>
                       if base = [] then Inl (NoBase it sty_id)
                       else (case map_of sm base of
                               None \<Rightarrow> Inl (InvalidStyleBase base it sty_id)
                             | Some (PropSlot p) \<Rightarrow> Inl (AttributeError ''modify'')
                             | Some (Variant base_variant) \<Rightarrow>
                                 (case modify base_variant props (slot_source it vid sty_id) of
                                    Inl e \<Rightarrow> Inl e
                                  | Inr v \<Rightarrow> Inr (AList.update sty_id (Variant v) sm, style_lookups)))
                   | Some (VList ks) \<Rightarrow>
                       if ks = [] then Inl (NoBase it sty_id) else Inl (TypeError ''unhashable type'')
                   | None \<Rightarrow> Inl (NoBase it sty_id))))"

fun eval_mods :: "string \<Rightarrow> string \<Rightarrow> style_map \<times> (string \<times> pyval) list \<Rightarrow> string list
    \<Rightarrow> error + style_map \<times> (string \<times> pyval) list" where
  "eval_mods it vid st [] = Inr st"
| "eval_mods it vid st (sty_id # ids) =
     (case eval_mod it vid st sty_id of
        Inl e \<Rightarrow> Inl e
      | Inr st1 \<Rightarrow> eval_mods it vid st1 ids)"

text \<open>One round of \<^verbatim>\<open>for to_id, from_id in style_lookups.items()\<close>.\<close>

definition eval_lookup :: "string \<Rightarrow> style_map \<Rightarrow> string \<times> pyval \<Rightarrow> error + style_map" where
  "eval_lookup it sm entry =
     (case entry of
        (to_id, VStr from_id) \<Rightarrow>
          (case map_of sm from_id of
             None \<Rightarrow> Inl (InvalidStyleReference from_id it to_id)
           | Some v \<Rightarrow> Inr (AList.update to_id v sm))
      | (to_id, VList ks) \<Rightarrow> Inl (TypeError ''unhashable type''))"

fun eval_lookups :: "string \<Rightarrow> style_map \<Rightarrow> (string \<times> pyval) list \<Rightarrow> error + style_map" where
  "eval_lookups it sm [] = Inr sm"
| "eval_lookups it sm (entry # entries) =
     (case eval_lookup it sm entry of
        Inl e \<Rightarrow> Inl e
      | Inr sm1 \<Rightarrow> eval_lookups it sm1 entries)"

text \<open>
  The body of \<^verbatim>\<open>for vers in all_ver\<close>. \<open>def_id\<close> and \<open>def_styles\<close> are
  \<^verbatim>\<open>item.def_ver['id']\<close> and \<^verbatim>\<open>item.def_ver['styles']\<close>. The warnings of the loop
  go to the log only and are left out.
\<close>

definition complete_version :: "bases_map \<Rightarrow> string \<Rightarrow> string \<Rightarrow> style_map \<Rightarrow> version \<Rightarrow> error + version" where
  "complete_version bases_of it def_id def_styles vers =
     (case fill_styles (ver_id vers = def_id) (def_style vers) def_styles (styles vers) bases_of of
        Inl e \<Rightarrow> Inl e
      | Inr sm1 \<Rightarrow>
          (case eval_mods it (ver_id vers) (sm1, []) (map fst sm1) of
             Inl e \<Rightarrow> Inl e
           | Inr (sm2, style_lookups) \<Rightarrow>
               (case eval_lookups it sm2 style_lookups of
                  Inl e \<Rightarrow> Inl e
                | Inr sm3 \<Rightarrow>
                    (case def_style_slot (def_style vers) sm3 of
                       Inl e \<Rightarrow> Inl e
                     | Inr v \<Rightarrow> Inr (vers \<lparr> styles := sm3, def_style := DefResolved v \<rparr>)))))"

text \<open>
  The versions other than the default one, in the order of the dict; each is completed
  in place, with the completed default version to fall back on.
\<close>

fun complete_others :: "bases_map \<Rightarrow> string \<Rightarrow> version \<Rightarrow> string \<Rightarrow> (string \<times> version) list
    \<Rightarrow> error + (string \<times> version) list" where
  "complete_others bases_of it dv dkey [] = Inr []"
| "complete_others bases_of it dv dkey ((k, vers) # rest) =
     (if k = dkey
      then (case complete_others bases_of it dv dkey rest of
              Inl e \<Rightarrow> Inl e
            | Inr rest1 \<Rightarrow> Inr ((k, dv) # rest1))
      else (case complete_version bases_of it (ver_id dv) (styles dv) vers of
              Inl e \<Rightarrow> Inl e
            | Inr vers1 \<Rightarrow>
                (case complete_others bases_of it dv dkey rest of
                   Inl e \<Rightarrow> Inl e
                 | Inr rest1 \<Rightarrow> Inr ((k, vers1) # rest1))))"

text \<open>
  The body of \<^verbatim>\<open>for item in item_data\<close>: the default version is moved to the front
  and completed first, then the others.
\<close>

definition setup_item :: "bases_map \<Rightarrow> item \<Rightarrow> error + item" where
  "setup_item bases_of it =
     (case map_of (versions it) (def_ver it) of
        None \<Rightarrow> Inl (ValueError ''list.remove(x): x not in list'')
      | Some dv \<Rightarrow>
          (case complete_version bases_of (item_id it) (ver_id dv) (styles dv) dv of
             Inl e \<Rightarrow> Inl e
           | Inr dv1 \<Rightarrow>
               (case complete_others bases_of (item_id it) dv1 (def_ver it) (versions it) of
                  Inl e \<Rightarrow> Inl e
                | Inr vs \<Rightarrow> Inr (it \<lparr> versions := vs \<rparr>))))"

fun setup_items :: "bases_map \<Rightarrow> item list \<Rightarrow> error + item list" where
  "setup_items bases_of [] = Inr []"
| "setup_items bases_of (it # its) =
     (case setup_item bases_of it of
        Inl e \<Rightarrow> Inl e
      | Inr it1 \<Rightarrow>
          (case setup_items bases_of its of
             Inl e \<Rightarrow> Inl e
           | Inr its1 \<Rightarrow> Inr (it1 # its1)))"

text \<open>
  \<^verbatim>\<open>setup_style_tree(item_data, style_data, log_fallbacks, log_missing_styles)\<close>. The
  two flags only choose what is logged. The result is the items with every version
  completed, and the \<^verbatim>\<open>bases\<close> of every style.
\<close>

definition setup_style_tree :: "item list \<Rightarrow> style list \<Rightarrow> error + item list \<times> bases_map" where
  "setup_style_tree item_data style_data =
     (case resolve_bases (build_all_styles style_data) of
        Inl e \<Rightarrow> Inl e
      | Inr bases_of \<Rightarrow>
          (case setup_items bases_of item_data of
             Inl e \<Rightarrow> Inl e
           | Inr items \<Rightarrow> Inr (items, bases_of)))"

text \<open>
  For stating what the completion leaves behind: the name a style lookup points at, a
  slot that holds a variant, and a style map in which every style lookup points at a
  slot of the map that is not itself a style lookup.
\<close>

definition alias_target :: "slot \<Rightarrow> pyval option" where
  "alias_target sl =
     (case sl of
        Variant v \<Rightarrow> None
      | PropSlot p \<Rightarrow> if pname p = None then Some (pvalue p) else None)"

definition is_variant :: "slot \<Rightarrow> bool" where
  "is_variant sl = (case sl of Variant v \<Rightarrow> True | PropSlot p \<Rightarrow> False)"

definition lookup_ok :: "style_map \<Rightarrow> slot \<Rightarrow> bool" where
  "lookup_ok sm sl =
     (case alias_target sl of
        None \<Rightarrow> True
      | Some (VList ks) \<Rightarrow> False
      | Some (VStr from_id) \<Rightarrow>
          (case map_of sm from_id of None \<Rightarrow> False | Some t \<Rightarrow> alias_target t = None))"

definition direct_lookups :: "style_map \<Rightarrow> bool" where
  "direct_lookups sm = list_all (\<lambda>entry. lookup_ok sm (snd entry)) sm"

text \<open>The same on the dict as a map: every slot is a direct lookup or none; no slot is a lookup.\<close>

definition settled :: "style_map \<Rightarrow> bool" where
  "settled sm \<longleftrightarrow> (\<forall>k sl. map_of sm k = Some sl \<longrightarrow> lookup_ok sm sl)"

definition no_lookups :: "style_map \<Rightarrow> bool" where
  "no_lookups sm \<longleftrightarrow> (\<forall>k sl. map_of sm k = Some sl \<longrightarrow> alias_target sl = None)"

text \<open>
  An item whose dicts are dicts (no key twice); one whose style lookups are all direct;
  one that declares slots for known styles only.
\<close>

definition dict_item :: "item \<Rightarrow> bool" where
  "dict_item it \<longleftrightarrow>
     distinct (map fst (versions it))
     \<and> list_all (\<lambda>entry. distinct (map fst (styles (snd entry)))) (versions it)"

definition direct_item :: "item \<Rightarrow> bool" where
  "direct_item it = list_all (\<lambda>entry. direct_lookups (styles (snd entry))) (versions it)"

definition only_known :: "style list \<Rightarrow> item \<Rightarrow> bool" where
  "only_known style_data it =
     list_all (\<lambda>entry. list_all (\<lambda>s. s \<in> set (map style_id style_data)) (map fst (styles (snd entry))))
       (versions it)"

text \<open>The keys a style map has once every known style it lacks is appended.\<close>

definition completed_keys :: "style_dict \<Rightarrow> style_map \<Rightarrow> string list" where
  "completed_keys all_styles sm =
     map fst sm @ filter (\<lambda>s. s \<notin> set (map fst sm)) (map fst all_styles)"

text \<open>The number of slots in all the style maps of an item.\<close>

definition slot_count :: "item \<Rightarrow> nat" where
  "slot_count it = sum_list (map (\<lambda>entry. length (styles (snd entry))) (versions it))"

text \<open>
  \<^verbatim>\<open>item.versions[ver_id]['styles'][sty_id]\<close> of the \<open>i\<close>-th item after
  \<^verbatim>\<open>setup_style_tree\<close>, when it returned and the slot is there.
\<close>

definition slot_at :: "error + item list \<times> bases_map \<Rightarrow> nat \<Rightarrow> string \<Rightarrow> string \<Rightarrow> slot option" where
  "slot_at result i vid sty_id =
     (case result of
        Inl e \<Rightarrow> None
      | Inr (items, bases_of) \<Rightarrow>
          if i < length items
          then (case map_of (versions (items ! i)) vid of
                  None \<Rightarrow> None
                | Some vers \<Rightarrow> map_of (styles vers) sty_id)
          else None)"

subsection \<open>Packages and their enabled flag\<close>

definition CLEAN_PACKAGE :: string where
  "CLEAN_PACKAGE = ''BEE2_CLEAN_STYLE''"

text \<open>
  A \<^verbatim>\<open>Package\<close>: its id, the handle of its archive (\<^verbatim>\<open>zip\<close>, here the archive's
  path), its \<^verbatim>\<open>info.txt\<close> tree, its display name, and the file names in the archive
  (\<^verbatim>\<open>zip_names(pack.zip)\<close>).
\<close>

record package =
  pak_id :: string
  pak_zip :: string
  pak_info :: property
  disp_name :: string
  pak_files :: "string list"

text \<open>
  Modelled from the spec: \<^verbatim>\<open>PACK_CONFIG\<close> (a \<^verbatim>\<open>ConfigFile\<close> of the module
  \<^verbatim>\<open>packageMan\<close>) is not among the sources; the spec calls it the persisted store of the
  enabled flag. It is a map from a section and an option to the stored text.
  \<^verbatim>\<open>get_bool(section, option, default)\<close> reads the text as a boolean, in the spelling
  Python's \<^verbatim>\<open>configparser\<close> accepts, and gives the default when the option is absent or
  is no boolean. \<^verbatim>\<open>srctools.bool_as_int\<close> writes a boolean as \<^verbatim>\<open>'1'\<close> or \<^verbatim>\<open>'0'\<close>.
\<close>

type_synonym pack_config = "string \<times> string \<Rightarrow> string option"

definition boolean_state :: "string \<Rightarrow> bool option" where
  "boolean_state s =
     (if casefold s \<in> set [''1'', ''yes'', ''true'', ''on''] then Some True
      else if casefold s \<in> set [''0'', ''no'', ''false'', ''off''] then Some False
      else None)"

definition get_bool :: "pack_config \<Rightarrow> string \<Rightarrow> string \<Rightarrow> bool \<Rightarrow> bool" where
  "get_bool conf section opt dflt =
     (case conf (section, opt) of
        None \<Rightarrow> dflt
      | Some s \<Rightarrow> (case boolean_state s of None \<Rightarrow> dflt | Some b \<Rightarrow> b))"

definition bool_as_int :: "bool \<Rightarrow> string" where
  "bool_as_int b = (if b then ''1'' else ''0'')"

text \<open>The getter of the property \<^verbatim>\<open>Package.enabled\<close>.\<close>

definition enabled :: "pack_config \<Rightarrow> package \<Rightarrow> bool" where
  "enabled conf self =
     (if pak_id self = CLEAN_PACKAGE then True
      else get_bool conf (pak_id self) ''Enabled'' True)"

text \<open>
  \<^verbatim>\<open>Package.set_enabled\<close>, the setter of the property: the exception raised, if any,
  and the configuration after the call.
\<close>

definition set_enabled :: "pack_config \<Rightarrow> package \<Rightarrow> bool \<Rightarrow> error option \<times> pack_config" where
  "set_enabled conf self v =
     (if pak_id self = CLEAN_PACKAGE
      then (Some (ValueError ''The Clean Style package cannot be disabled!''), conf)
      else (None, conf((pak_id self, ''Enabled'') \<mapsto> bool_as_int v)))"

subsection \<open>The object registry\<close>

text \<open>
  \<^verbatim>\<open>OBJ_TYPES\<close>: the name of every subclass of \<^verbatim>\<open>PakObject\<close> in the module, in the
  order of their definition, with its \<^verbatim>\<open>allow_mult\<close> flag.
\<close>

definition OBJ_TYPES :: "(string \<times> bool) list" where
  "OBJ_TYPES =
     [(''Style'', False), (''Item'', False), (''ItemConfig'', True), (''QuotePack'', False),
      (''Skybox'', False), (''Music'', False), (''StyleVar'', True), (''StyleVPK'', False),
      (''Elevator'', False), (''PackList'', True), (''EditorSound'', False),
      (''BrushTemplate'', False)]"

text \<open>The named tuples \<^verbatim>\<open>ObjData\<close> and \<^verbatim>\<open>ParseData\<close>.\<close>

record obj_data =
  od_zip_file :: string
  od_info_block :: property
  od_pak_id :: string
  od_disp_name :: string

record parse_data =
  pd_zip_file :: string
  pd_id :: string
  pd_info :: property
  pd_pak_id :: string
  pd_is_override :: bool

text \<open>
  The two global dicts: \<^verbatim>\<open>all_obj[type][id]\<close> is the declaration of an object and
  \<^verbatim>\<open>obj_override[type][id]\<close> the list of its overrides (a \<^verbatim>\<open>defaultdict(list)\<close>).
\<close>

record registry =
  all_obj :: "string \<Rightarrow> (string \<times> obj_data) list"
  obj_override :: "string \<Rightarrow> string \<Rightarrow> parse_data list"

definition empty_registry :: registry where
  "empty_registry = \<lparr> all_obj = (\<lambda>t. []), obj_override = (\<lambda>t i. []) \<rparr>"

text \<open>
  \<^verbatim>\<open>obj['id']\<close>: \<^verbatim>\<open>IndexError\<close> without the key; a block as value cannot be the key
  of a dict (\<^verbatim>\<open>TypeError\<close>).
\<close>

definition obj_id_of :: "property \<Rightarrow> error + string" where
  "obj_id_of obj =
     (case get_item obj ''id'' of
        Inl e \<Rightarrow> Inl e
      | Inr (VStr s) \<Rightarrow> Inr s
      | Inr (VList ks) \<Rightarrow> Inl (TypeError ''unhashable type''))"

definition queue_override :: "package \<Rightarrow> string \<Rightarrow> string \<Rightarrow> property \<Rightarrow> registry \<Rightarrow> registry" where
  "queue_override pack comp_type oid obj reg =
     reg \<lparr> obj_override := (obj_override reg)
             (comp_type := ((obj_override reg) comp_type)
                (oid := (obj_override reg) comp_type oid
                        @ [\<lparr> pd_zip_file = pak_zip pack, pd_id = oid, pd_info = obj,
                              pd_pak_id = pak_id pack, pd_is_override = True \<rparr>])) \<rparr>"

text \<open>\<^verbatim>\<open>for obj in pack.info.find_all("Overrides", comp_type)\<close>\<close>

fun read_overrides :: "package \<Rightarrow> string \<Rightarrow> registry \<Rightarrow> property list \<Rightarrow> error + registry" where
  "read_overrides pack comp_type reg [] = Inr reg"
| "read_overrides pack comp_type reg (obj # objs) =
     (case obj_id_of obj of
        Inl e \<Rightarrow> Inl e
      | Inr oid \<Rightarrow> read_overrides pack comp_type (queue_override pack comp_type oid obj reg) objs)"

text \<open>One round of \<^verbatim>\<open>for obj in pack.info.find_all(comp_type)\<close>.\<close>

definition read_object :: "package \<Rightarrow> string \<Rightarrow> bool \<Rightarrow> registry \<Rightarrow> property \<Rightarrow> error + registry" where
  "read_object pack comp_type allow_dupes reg obj =
     (case obj_id_of obj of
        Inl e \<Rightarrow> Inl e
      | Inr oid \<Rightarrow>
          if map_of (all_obj reg comp_type) oid \<noteq> None
          then (if allow_dupes then Inr (queue_override pack comp_type oid obj reg)
                else Inl (DefinedTwice oid))
          else Inr (reg \<lparr> all_obj := (all_obj reg)
                      (comp_type := AList.update oid
                         \<lparr> od_zip_file = pak_zip pack, od_info_block = obj,
                           od_pak_id = pak_id pack, od_disp_name = disp_name pack \<rparr>
                         (all_obj reg comp_type)) \<rparr>))"

fun read_objects :: "package \<Rightarrow> string \<Rightarrow> bool \<Rightarrow> registry \<Rightarrow> property list \<Rightarrow> error + registry" where
  "read_objects pack comp_type allow_dupes reg [] = Inr reg"
| "read_objects pack comp_type allow_dupes reg (obj # objs) =
     (case read_object pack comp_type allow_dupes reg obj of
        Inl e \<Rightarrow> Inl e
      | Inr reg1 \<Rightarrow> read_objects pack comp_type allow_dupes reg1 objs)"

text \<open>\<^verbatim>\<open>for comp_type in OBJ_TYPES\<close>\<close>

fun read_components :: "package \<Rightarrow> registry \<Rightarrow> (string \<times> bool) list \<Rightarrow> error + registry" where
  "read_components pack reg [] = Inr reg"
| "read_components pack reg ((comp_type, allow_dupes) # types) =
     (case read_overrides pack comp_type reg (find_all [''Overrides'', comp_type] (pak_info pack)) of
        Inl e \<Rightarrow> Inl e
      | Inr reg1 \<Rightarrow>
          (case read_objects pack comp_type allow_dupes reg1 (find_all [comp_type] (pak_info pack)) of
             Inl e \<Rightarrow> Inl e
           | Inr reg2 \<Rightarrow> read_components pack reg2 types))"

text \<open>
  The prerequisites loop at the start of \<^verbatim>\<open>parse_package\<close>: \<open>Inr True\<close> when the loop
  ends without \<^verbatim>\<open>return 0\<close>. \<open>known\<close> are the keys of the global \<^verbatim>\<open>packages\<close>; a
  block as value cannot be looked up in that dict (\<^verbatim>\<open>TypeError\<close>).
\<close>

fun prerequisites_met :: "bool \<Rightarrow> bool \<Rightarrow> string list \<Rightarrow> pyval list \<Rightarrow> error + bool" where
  "prerequisites_met has_tag has_mel known [] = Inr True"
| "prerequisites_met has_tag has_mel known (pre # pres) =
     (if pre = VStr ''<TAG_MUSIC>''
      then (if has_tag then prerequisites_met has_tag has_mel known pres else Inr False)
      else if pre = VStr ''<MEL_MUSIC>''
      then (if has_mel then prerequisites_met has_tag has_mel known pres else Inr False)
      else (case pre of
              VStr p \<Rightarrow> (if p \<in> set known then prerequisites_met has_tag has_mel known pres else Inr False)
            | VList ks \<Rightarrow> Inl (TypeError ''unhashable type'')))"

definition prerequisites :: "package \<Rightarrow> pyval list" where
  "prerequisites pack =
     map pvalue (case find_key ''Prerequisites'' (pak_info pack) of None \<Rightarrow> [] | Some p \<Rightarrow> children p)"

text \<open>
  The count of image resources at the end of \<^verbatim>\<open>parse_package\<close>, with \<^verbatim>\<open>/\<close> as the
  path separator (\<^verbatim>\<open>os.path.normcase\<close> is then the identity).
\<close>

definition starts_with :: "string \<Rightarrow> string \<Rightarrow> bool" where
  "starts_with pre s \<longleftrightarrow> take (length pre) s = pre"

definition img_count :: "string list \<Rightarrow> nat" where
  "img_count names = length (filter (\<lambda>n. starts_with ''resources/bee2'' (casefold n)) names)"

text \<open>
  \<^verbatim>\<open>parse_package(pack, has_tag, has_mel)\<close>: the number of images and the registry after
  the call, or the exception raised.
\<close>

definition parse_package :: "string list \<Rightarrow> registry \<Rightarrow> package \<Rightarrow> bool \<Rightarrow> bool \<Rightarrow> error + nat \<times> registry" where
  "parse_package known reg pack has_tag has_mel =
     (case prerequisites_met has_tag has_mel known (prerequisites pack) of
        Inl e \<Rightarrow> Inl e
      | Inr False \<Rightarrow> Inr (0, reg)
      | Inr True \<Rightarrow>
          (case read_components pack reg OBJ_TYPES of
             Inl e \<Rightarrow> Inl e
           | Inr reg1 \<Rightarrow> Inr (img_count (pak_files pack), reg1)))"

text \<open>
  The loop of \<^verbatim>\<open>load_packages\<close> over the packages found: a disabled package is
  skipped, and an exception of \<^verbatim>\<open>parse_package\<close> is not caught, so it ends the load.
\<close>

fun parse_packages :: "pack_config \<Rightarrow> string list \<Rightarrow> bool \<Rightarrow> bool \<Rightarrow> nat \<times> registry \<Rightarrow> package list
    \<Rightarrow> error + nat \<times> registry" where
  "parse_packages conf known has_tag has_mel st [] = Inr st"
| "parse_packages conf known has_tag has_mel st (pack # packs) =
     (case st of (images, reg) \<Rightarrow>
        if \<not> enabled conf pack then parse_packages conf known has_tag has_mel st packs
        else (case parse_package known reg pack has_tag has_mel of
                Inl e \<Rightarrow> Inl e
              | Inr (n, reg1) \<Rightarrow> parse_packages conf known has_tag has_mel (images + n, reg1) packs))"

subsection \<open>Export of an item\<close>

text \<open>
  \<^verbatim>\<open>palette_items\<close>: for every subtype of this item on the palette, its position in
  \<^verbatim>\<open>pal_list\<close> (the last one, when a subtype is listed twice).
\<close>

definition palette_items :: "string \<Rightarrow> (string \<times> nat) list \<Rightarrow> (nat \<times> nat) list" where
  "palette_items self_id pal_list =
     foldl (\<lambda>d entry. case entry of (index, it, subitem) \<Rightarrow>
                         if it = self_id then AList.update subitem index d else d)
           [] (List.enumerate 0 pal_list)"

definition ends_with :: "string \<Rightarrow> string \<Rightarrow> bool" where
  "ends_with suffix s \<longleftrightarrow> length suffix \<le> length s \<and> drop (length s - length suffix) s = suffix"

text \<open>\<^verbatim>\<open>"{x} {y} 0".format(x=index % 4, y=index // 4)\<close>\<close>

definition grid_position :: "nat \<Rightarrow> string" where
  "grid_position index = str_nat (index mod 4) @ '' '' @ str_nat (index div 4) @ '' 0''"

text \<open>
  The icon of a palette block when the item has one entry on the palette: the grouped
  icon, or else the block's own \<^verbatim>\<open>Image\<close> (\<^verbatim>\<open>IndexError\<close> when it has none), with
  \<^verbatim>\<open>.vtf\<close> replaced by \<^verbatim>\<open>.png\<close>. A block as value has no \<^verbatim>\<open>casefold\<close>.
\<close>

definition grouped_icon :: "item_variant \<Rightarrow> property \<Rightarrow> error + string" where
  "grouped_icon item_data pal_section =
     (case (case all_icon item_data of
              Some v \<Rightarrow> Inr v
            | None \<Rightarrow> get_item pal_section ''Image'') of
        Inl e \<Rightarrow> Inl e
      | Inr (VList ks) \<Rightarrow> Inl (AttributeError ''casefold'')
      | Inr (VStr icon) \<Rightarrow>
          Inr (if ends_with ''.vtf'' (casefold icon) then take (length icon - 3) icon @ ''png'' else icon))"

text \<open>A \<^verbatim>\<open>Palette\<close> block of a subtype that is on the palette, at position \<open>index\<close>.\<close>

definition place_palette :: "(nat \<times> nat) list \<Rightarrow> item_variant \<Rightarrow> nat \<Rightarrow> property \<Rightarrow> error + property" where
  "place_palette pal item_data pos pal_section =
     (if length pal = 1
      then (let p1 = (case all_name item_data of
                        None \<Rightarrow> pal_section
                      | Some nm \<Rightarrow> set_item ''Tooltip'' nm pal_section)
            in case grouped_icon item_data p1 of
                 Inl e \<Rightarrow> Inl e
               | Inr icon \<Rightarrow>
                   Inr (set_item ''Position'' (VStr (grid_position pos))
                          (set_item ''Image'' (VStr icon) p1)))
      else Inr (set_item ''Position'' (VStr (grid_position pos)) pal_section))"

text \<open>\<^verbatim>\<open>pal_section.name == "palette"\<close>\<close>

definition is_palette :: "property \<Rightarrow> bool" where
  "is_palette c \<longleftrightarrow> pname c = Some ''palette''"

text \<open>
  The loop over the children of a subtype that is on the palette: every child named
  \<^verbatim>\<open>Palette\<close> is rewritten, the others stay.
\<close>

fun place_children :: "(nat \<times> nat) list \<Rightarrow> item_variant \<Rightarrow> nat \<Rightarrow> property list \<Rightarrow> error + property list" where
  "place_children pal item_data pos [] = Inr []"
| "place_children pal item_data pos (c # cs) =
     (case (if is_palette c then place_palette pal item_data pos c else Inr c) of
        Inl e \<Rightarrow> Inl e
      | Inr c1 \<Rightarrow>
          (case place_children pal item_data pos cs of
             Inl e \<Rightarrow> Inl e
           | Inr cs1 \<Rightarrow> Inr (c1 # cs1)))"

text \<open>
  The loop over the children of a subtype that is not on the palette:
  \<^verbatim>\<open>del editor_section[editor_sec_index]; break\<close> removes the first child named
  \<^verbatim>\<open>Palette\<close> and ends the loop.
\<close>

fun remove_first :: "('a \<Rightarrow> bool) \<Rightarrow> 'a list \<Rightarrow> 'a list" where
  "remove_first P [] = []"
| "remove_first P (x # xs) = (if P x then xs else x # remove_first P xs)"

definition strip_palette :: "property \<Rightarrow> property" where
  "strip_palette editor_section =
     (if list_ex is_palette (children editor_section)
      then set_children editor_section (remove_first is_palette (children editor_section))
      else editor_section)"

text \<open>The body of \<^verbatim>\<open>for index, editor_section in enumerate(...)\<close>.\<close>

definition export_subtype :: "(nat \<times> nat) list \<Rightarrow> item_variant \<Rightarrow> nat \<Rightarrow> property \<Rightarrow> error + property" where
  "export_subtype pal item_data index editor_section =
     (case map_of pal index of
        Some pos \<Rightarrow>
          (if has_children editor_section
           then (case place_children pal item_data pos (children editor_section) of
                   Inl e \<Rightarrow> Inl e
                 | Inr cs \<Rightarrow> Inr (set_children editor_section cs))
           else Inr editor_section)
      | None \<Rightarrow> Inr (strip_palette editor_section))"

text \<open>
  The loop over \<^verbatim>\<open>new_editor.find_all("Editor", "Subtype")\<close>. Its state is the index
  of \<^verbatim>\<open>enumerate\<close> and the exception raised, if any: after an exception nothing more is
  done.
\<close>

definition subtype_body :: "(nat \<times> nat) list \<Rightarrow> item_variant \<Rightarrow> nat \<times> error option \<Rightarrow> property
    \<Rightarrow> (nat \<times> error option) \<times> property" where
  "subtype_body pal item_data st editor_section =
     (case st of
        (index, Some e) \<Rightarrow> (st, editor_section)
      | (index, None) \<Rightarrow>
          (case export_subtype pal item_data index editor_section of
             Inl e \<Rightarrow> ((index, Some e), editor_section)
           | Inr sec \<Rightarrow> ((Suc index, None), sec)))"

definition export_palette :: "(nat \<times> nat) list \<Rightarrow> item_variant \<Rightarrow> property \<Rightarrow> error + property" where
  "export_palette pal item_data new_editor =
     (case visit_all [''Editor'', ''Subtype''] (subtype_body pal item_data) (0, None) new_editor of
        ((index, Some e), ed) \<Rightarrow> Inl e
      | ((index, None), ed) \<Rightarrow> Inr ed)"

text \<open>
  Modelled from the spec: \<^verbatim>\<open>Property.bool\<close> and \<^verbatim>\<open>srctools.conv_bool\<close> are not among
  the sources. The spec says that property defaults are overridden per the selection;
  a property marked \<^verbatim>\<open>BEE2_ignore\<close> with a true value is skipped.
\<close>

definition conv_bool :: "string \<Rightarrow> bool" where
  "conv_bool s \<longleftrightarrow> casefold s \<in> set [''1'', ''yes'', ''true'', ''y'', ''t'']"

definition prop_bool :: "property \<Rightarrow> string \<Rightarrow> bool" where
  "prop_bool p key = (case get_default p key None of Some (VStr s) \<Rightarrow> conv_bool s | _ \<Rightarrow> False)"

text \<open>
  \<^verbatim>\<open>for item_prop in prop_section\<close>: a property without a name has no
  \<^verbatim>\<open>casefold\<close>.
\<close>

definition override_default :: "(string \<times> string) list \<Rightarrow> property \<Rightarrow> error + property" where
  "override_default prop_overrides item_prop =
     (if prop_bool item_prop ''BEE2_ignore'' then Inr item_prop
      else (case pname item_prop of
              None \<Rightarrow> Inl (AttributeError ''casefold'')
            | Some n \<Rightarrow>
                (case map_of prop_overrides (casefold n) of
                   None \<Rightarrow> Inr item_prop
                 | Some v \<Rightarrow> Inr (set_item ''DefaultValue'' (VStr v) item_prop))))"

fun override_defaults :: "(string \<times> string) list \<Rightarrow> property list \<Rightarrow> error + property list" where
  "override_defaults prop_overrides [] = Inr []"
| "override_defaults prop_overrides (c # cs) =
     (case override_default prop_overrides c of
        Inl e \<Rightarrow> Inl e
      | Inr c1 \<Rightarrow>
          (case override_defaults prop_overrides cs of
             Inl e \<Rightarrow> Inl e
           | Inr cs1 \<Rightarrow> Inr (c1 # cs1)))"

definition properties_body :: "(string \<times> string) list \<Rightarrow> error option \<Rightarrow> property \<Rightarrow> error option \<times> property" where
  "properties_body prop_overrides st prop_section =
     (case st of
        Some e \<Rightarrow> (st, prop_section)
      | None \<Rightarrow>
          (if has_children prop_section
           then (case override_defaults prop_overrides (children prop_section) of
                   Inl e \<Rightarrow> (Some e, prop_section)
                 | Inr cs \<Rightarrow> (None, set_children prop_section cs))
           else (None, prop_section)))"

definition export_properties :: "(string \<times> string) list \<Rightarrow> property \<Rightarrow> error + property" where
  "export_properties prop_overrides new_editor =
     (case visit_all [''Editor'', ''Properties''] (properties_body prop_overrides) None new_editor of
        (Some e, ed) \<Rightarrow> Inl e
      | (None, ed) \<Rightarrow> Inr ed)"

text \<open>
  Modelled from the spec: the class \<^verbatim>\<open>srctools.Vec\<close> is not among the sources. The spec
  speaks of the integer grid points in the inclusive range of two corners, so a vector
  is three integers here. \<^verbatim>\<open>prop.vec(key)\<close> reads three numbers separated by single
  spaces and gives \<open>(0, 0, 0)\<close> for anything else; \<^verbatim>\<open>Vec.bbox\<close> gives the least and the
  greatest corner; \<^verbatim>\<open>Vec.iter_grid\<close> runs through the points of the box, \<open>x\<close> outermost;
  \<^verbatim>\<open>str(pos)\<close> writes the three numbers with spaces between.
\<close>

type_synonym vec = "int \<times> int \<times> int"

definition vec_from_str :: "string \<Rightarrow> vec" where
  "vec_from_str s =
     (case map py_int (split_on CHR '' '' s) of
        [Some x, Some y, Some z] \<Rightarrow> (x, y, z)
      | _ \<Rightarrow> (0, 0, 0))"

definition prop_vec :: "property \<Rightarrow> string \<Rightarrow> vec" where
  "prop_vec p key = (case get_default p key None of Some (VStr s) \<Rightarrow> vec_from_str s | _ \<Rightarrow> (0, 0, 0))"

definition bbox :: "vec \<Rightarrow> vec \<Rightarrow> vec \<times> vec" where
  "bbox a b =
     (case a of (ax, ay, az) \<Rightarrow> case b of (bx, by, bz) \<Rightarrow>
        ((min ax bx, min ay by, min az bz), (max ax bx, max ay by, max az bz)))"

definition iter_grid :: "vec \<Rightarrow> vec \<Rightarrow> vec list" where
  "iter_grid lo hi =
     (case lo of (x0, y0, z0) \<Rightarrow> case hi of (x1, y1, z1) \<Rightarrow>
        concat (map (\<lambda>x. concat (map (\<lambda>y. map (\<lambda>z. (x, y, z)) [z0..z1]) [y0..y1])) [x0..x1]))"

definition str_vec :: "vec \<Rightarrow> string" where
  "str_vec v = (case v of (x, y, z) \<Rightarrow> str_int x @ '' '' @ str_int y @ '' '' @ str_int z)"

text \<open>The points a region with the two corner keys is expanded to.\<close>

definition region_grid :: "string \<Rightarrow> string \<Rightarrow> property \<Rightarrow> vec list" where
  "region_grid key1 key2 voxel_part =
     (case bbox (prop_vec voxel_part key1) (prop_vec voxel_part key2) of
        (bbox_min, bbox_max) \<Rightarrow> iter_grid bbox_min bbox_max)"

definition surface_warning :: "string \<Rightarrow> string" where
  "surface_warning it = ''Item '' @ it @ '' has invalid OccupiedVoxels part (needs SubPos1 and SubPos2)!''"

definition volume_warning :: "string \<Rightarrow> string" where
  "volume_warning it = ''Item '' @ it @ '' has invalid OccupiedVoxels part (needs Pos1 and Pos2)!''"

text \<open>
  The body of the loop over
  \<^verbatim>\<open>new_editor.find_all("Exporting", "OccupiedVoxels", "SurfaceVolume")\<close>; the state is
  the log.
\<close>

definition surface_entry :: "vec \<Rightarrow> property" where
  "surface_entry pos = Block (Some ''Surface'') [Leaf (Some ''Pos'') (str_vec pos)]"

definition surface_body :: "string \<Rightarrow> string list \<Rightarrow> property \<Rightarrow> string list \<times> property" where
  "surface_body it log voxel_part =
     (if \<not> contains ''subpos1'' voxel_part \<or> \<not> contains ''subpos2'' voxel_part
      then (log @ [surface_warning it], voxel_part)
      else (let part = del_key ''subpos2'' (del_key ''subpos1'' (set_name ''Voxel'' voxel_part))
            in (log, set_children part
                       (children part @ map surface_entry (region_grid ''subpos1'' ''subpos2'' voxel_part)))))"

definition export_surfaces :: "string \<Rightarrow> property \<Rightarrow> string list \<times> property" where
  "export_surfaces it new_editor =
     visit_all [''Exporting'', ''OccupiedVoxels'', ''SurfaceVolume''] (surface_body it) [] new_editor"

text \<open>
  The loop \<^verbatim>\<open>for voxel_part in list(occu_voxels.find_all("Volume"))\<close>. The children of
  \<^verbatim>\<open>occu_voxels\<close> carry their position in the list the loop started from (\<open>None\<close> for
  the entries the loop appends), because \<^verbatim>\<open>del occu_voxels['Volume']\<close> removes the
  last child of that name, which need not be the part at hand: that part is renamed and
  stripped of its corners in place, wherever it still is a child.
\<close>

definition volume_entry :: "property \<Rightarrow> vec \<Rightarrow> property" where
  "volume_entry part pos = set_item ''Pos'' (VStr (str_vec pos)) part"

fun volume_loop :: "string \<Rightarrow> string list \<times> (nat option \<times> property) list \<Rightarrow> (nat \<times> property) list
    \<Rightarrow> error + string list \<times> (nat option \<times> property) list" where
  "volume_loop it st [] = Inr st"
| "volume_loop it st ((i, voxel_part) # parts) =
     (case st of (log, ks) \<Rightarrow>
        if \<not> list_ex (\<lambda>k. named ''Volume'' (snd k)) ks then Inl (IndexError ''Volume'')
        else (let ks1 = remove_last (\<lambda>k. named ''Volume'' (snd k)) ks
              in if \<not> contains ''pos1'' voxel_part \<or> \<not> contains ''pos2'' voxel_part
                 then volume_loop it (log @ [volume_warning it], ks1) parts
                 else (let part = del_key ''pos2'' (del_key ''pos1'' (set_name ''Voxel'' voxel_part));
                           ks2 = map (\<lambda>k. if fst k = Some i then (fst k, part) else k) ks1
                       in volume_loop it
                            (log, ks2 @ map (\<lambda>pos. (None, volume_entry part pos))
                                          (region_grid ''pos1'' ''pos2'' voxel_part))
                            parts)))"

definition volume_body :: "string \<Rightarrow> string list \<times> error option \<Rightarrow> property
    \<Rightarrow> (string list \<times> error option) \<times> property" where
  "volume_body it st occu_voxels =
     (case st of
        (log, Some e) \<Rightarrow> (st, occu_voxels)
      | (log, None) \<Rightarrow>
          (case volume_loop it (log, map (\<lambda>k. (Some (fst k), snd k)) (List.enumerate 0 (children occu_voxels)))
                  (filter (\<lambda>k. named ''Volume'' (snd k)) (List.enumerate 0 (children occu_voxels))) of
             Inl e \<Rightarrow> ((log, Some e), occu_voxels)
           | Inr (log1, ks) \<Rightarrow>
               ((log1, None),
                if has_children occu_voxels then set_children occu_voxels (map snd ks) else occu_voxels)))"

definition export_volumes :: "string \<Rightarrow> string list \<Rightarrow> property \<Rightarrow> error + string list \<times> property" where
  "export_volumes it log new_editor =
     (case visit_all [''Exporting'', ''OccupiedVoxels''] (volume_body it) (log, None) new_editor of
        ((log1, Some e), ed) \<Rightarrow> Inl e
      | ((log1, None), ed) \<Rightarrow> Inr (log1, ed))"

text \<open>\<^verbatim>\<open>self.all_conf + item_data.vbsp_config\<close>: a collection without a name is spliced in.\<close>

definition prop_add :: "property \<Rightarrow> property \<Rightarrow> property" where
  "prop_add a b = set_children a (children a @ (if real_name b = None then children b else [b]))"

text \<open>\<^verbatim>\<open>self.versions[ver_id]['styles'][style_id]\<close>, which must be an \<^verbatim>\<open>ItemVariant\<close>.\<close>

definition export_variant :: "item \<Rightarrow> string \<Rightarrow> string \<Rightarrow> error + item_variant" where
  "export_variant self vid sid =
     (case map_of (versions self) vid of
        None \<Rightarrow> Inl (KeyError vid)
      | Some vers \<Rightarrow>
          (case map_of (styles vers) sid of
             None \<Rightarrow> Inl (KeyError sid)
           | Some (PropSlot p) \<Rightarrow> Inl (AttributeError ''editor'')
           | Some (Variant v) \<Rightarrow> Inr v))"

text \<open>
  \<^verbatim>\<open>Item._get_export_data(self, pal_list, ver_id, style_id, prop_conf)\<close>: the editor
  block, the extra editor blocks and the config of the item, and the warnings logged.
\<close>

definition get_export_data :: "item \<Rightarrow> (string \<times> nat) list \<Rightarrow> string \<Rightarrow> string
    \<Rightarrow> (string \<times> (string \<times> string) list) list
    \<Rightarrow> error + (property \<times> property \<times> property) \<times> string list" where
  "get_export_data self pal_list vid sid prop_conf =
     (case export_variant self vid sid of
        Inl e \<Rightarrow> Inl e
      | Inr item_data \<Rightarrow>
          (case export_palette (palette_items (item_id self) pal_list) item_data
                  (set_item ''type'' (VStr (item_id self)) (editor item_data)) of
             Inl e \<Rightarrow> Inl e
           | Inr ed1 \<Rightarrow>
               (case export_properties
                       (case map_of prop_conf (item_id self) of None \<Rightarrow> [] | Some d \<Rightarrow> d) ed1 of
                  Inl e \<Rightarrow> Inl e
                | Inr ed2 \<Rightarrow>
                    (case export_surfaces (item_id self) ed2 of
                       (log, ed3) \<Rightarrow>
                         (case export_volumes (item_id self) log ed3 of
                            Inl e \<Rightarrow> Inl e
                          | Inr (log1, ed4) \<Rightarrow>
                              Inr ((ed4, Block None (editor_extra item_data),
                                    prop_add (all_conf self) (vbsp_config item_data)), log1))))))"

subsection \<open>Loading the registered objects\<close>

text \<open>
  The loop of \<^verbatim>\<open>load_packages\<close> over \<^verbatim>\<open>all_obj\<close> builds every registered object with
  the methods of \<^verbatim>\<open>OBJ_TYPES[obj_type].cls\<close>. A class is given here by what the loop
  uses of it: \<^verbatim>\<open>parse\<close>, \<^verbatim>\<open>add_over\<close> and the \<^verbatim>\<open>id\<close> attribute of its objects
  (\<open>None\<close> for an object without one). \<^verbatim>\<open>add_over\<close> changes \<^verbatim>\<open>self\<close> in place and
  returns nothing; the method of the model returns \<^verbatim>\<open>self\<close> as it is after the call.
\<close>

record 'o pak_class =
  cls_parse :: "parse_data \<Rightarrow> error + 'o"
  cls_add_over :: "'o \<Rightarrow> 'o \<Rightarrow> error + 'o"
  cls_id :: "'o \<Rightarrow> string option"

text \<open>
  An object of \<^verbatim>\<open>data[obj_type]\<close>: the object of the class with the attributes
  \<^verbatim>\<open>pak_id\<close> and \<^verbatim>\<open>pak_name\<close> that the loop sets on it.
\<close>

record 'o pak_object =
  po_obj :: 'o
  po_pak_id :: string
  po_pak_name :: string

text \<open>
  \<^verbatim>\<open>reraise_keyerror(err, obj_id)\<close>, for the exceptions the loop hands to it. An
  \<^verbatim>\<open>IndexError\<close> of the model is the one that \<^verbatim>\<open>prop[key]\<close> raises from
  \<^verbatim>\<open>NoKeyError\<close>; it becomes \<^verbatim>\<open>No "<key>" in <id> object!\<close>.
\<close>

definition reraise_keyerror :: "error \<Rightarrow> string \<Rightarrow> error" where
  "reraise_keyerror err obj_id = (case err of IndexError key \<Rightarrow> NoKeyIn key obj_id | _ \<Rightarrow> err)"

text \<open>
  One round of \<^verbatim>\<open>for override_data in obj_override[obj_type].get(obj_id, [])\<close>: the
  override is parsed by the class and handed to \<^verbatim>\<open>add_over\<close> of the object.
\<close>

definition apply_override :: "'o pak_class \<Rightarrow> 'o \<Rightarrow> parse_data \<Rightarrow> error + 'o" where
  "apply_override cls object override_data =
     (case cls_parse cls override_data of
        Inl e \<Rightarrow> Inl e
      | Inr override \<Rightarrow> cls_add_over cls object override)"

fun apply_overrides :: "'o pak_class \<Rightarrow> 'o \<Rightarrow> parse_data list \<Rightarrow> error + 'o" where
  "apply_overrides cls object [] = Inr object"
| "apply_overrides cls object (override_data # rest) =
     (case apply_override cls object override_data of
        Inl e \<Rightarrow> Inl e
      | Inr object1 \<Rightarrow> apply_overrides cls object1 rest)"

text \<open>
  The body of \<^verbatim>\<open>for obj_id, obj_data in objs.items()\<close>: the object as it is appended to
  \<^verbatim>\<open>data[obj_type]\<close>, with the key it has in \<^verbatim>\<open>_id_to_obj\<close> (its folded id as parsed).
  The same object is in both, so both see what \<^verbatim>\<open>add_over\<close> did to it.
\<close>

definition load_object :: "'o pak_class \<Rightarrow> string \<Rightarrow> string \<Rightarrow> obj_data \<Rightarrow> parse_data list
    \<Rightarrow> error + string \<times> 'o pak_object" where
  "load_object cls obj_type obj_id od overrides =
     (case cls_parse cls \<lparr> pd_zip_file = od_zip_file od, pd_id = obj_id, pd_info = od_info_block od,
                            pd_pak_id = od_pak_id od, pd_is_override = False \<rparr> of
        Inl e \<Rightarrow> Inl (reraise_keyerror e obj_id)
      | Inr object \<Rightarrow>
          (case cls_id cls object of
             None \<Rightarrow> Inl (ValueError (obj_type @ '' object has no ID!''))
           | Some i \<Rightarrow>
               (case apply_overrides cls object overrides of
                  Inl e \<Rightarrow> Inl e
                | Inr object1 \<Rightarrow>
                    Inr (casefold i, \<lparr> po_obj = object1, po_pak_id = od_pak_id od,
                                        po_pak_name = od_disp_name od \<rparr>))))"

text \<open>
  \<^verbatim>\<open>for obj_id, obj_data in objs.items()\<close>; the state is \<^verbatim>\<open>data[obj_type]\<close> and the
  \<^verbatim>\<open>_id_to_obj\<close> of the class.
\<close>

fun load_objects :: "'o pak_class \<Rightarrow> string \<Rightarrow> (string \<Rightarrow> parse_data list)
    \<Rightarrow> 'o pak_object list \<times> (string \<times> 'o pak_object) list \<Rightarrow> (string \<times> obj_data) list
    \<Rightarrow> error + 'o pak_object list \<times> (string \<times> 'o pak_object) list" where
  "load_objects cls obj_type overrides st [] = Inr st"
| "load_objects cls obj_type overrides st ((obj_id, od) # objs) =
     (case load_object cls obj_type obj_id od (overrides obj_id) of
        Inl e \<Rightarrow> Inl e
      | Inr (key, object) \<Rightarrow>
          load_objects cls obj_type overrides
            (fst st @ [object], AList.update key object (snd st)) objs)"

text \<open>
  \<^verbatim>\<open>for obj_type, objs in all_obj.items()\<close>: for every type, \<^verbatim>\<open>data[obj_type]\<close> and
  the \<^verbatim>\<open>_id_to_obj\<close> of its class. The progress bar and the log are left out.
\<close>

fun load_types :: "(string \<Rightarrow> 'o pak_class) \<Rightarrow> registry \<Rightarrow> string list
    \<Rightarrow> error + (string \<times> 'o pak_object list \<times> (string \<times> 'o pak_object) list) list" where
  "load_types classes reg [] = Inr []"
| "load_types classes reg (obj_type # types) =
     (case load_objects (classes obj_type) obj_type (obj_override reg obj_type) ([], [])
             (all_obj reg obj_type) of
        Inl e \<Rightarrow> Inl e
      | Inr loaded \<Rightarrow>
          (case load_types classes reg types of
             Inl e \<Rightarrow> Inl e
           | Inr others \<Rightarrow> Inr ((obj_type, loaded) # others)))"

text \<open>
  The class \<^verbatim>\<open>StyleVar\<close>, one of the three that allow multiple declarations.
  \<^verbatim>\<open>styles\<close> is \<open>None\<close> for an unstyled variable. Modelled from the spec:
  \<^verbatim>\<open>srctools.conv_bool\<close> is not among the sources; a value that is no text counts as
  false here.
\<close>

record style_var =
  sv_id :: string
  sv_name :: pyval
  sv_default :: bool
  sv_enabled :: bool
  sv_desc :: string
  sv_styles :: "pyval list option"

definition conv_bool_of :: "pyval option \<Rightarrow> bool" where
  "conv_bool_of v = (case v of Some (VStr s) \<Rightarrow> conv_bool s | _ \<Rightarrow> False)"

definition StyleVar_parse :: "parse_data \<Rightarrow> error + style_var" where
  "StyleVar_parse data =
     (let name = (case get_default (pd_info data) ''name'' (Some (VStr [])) of
                    Some v \<Rightarrow> v | None \<Rightarrow> VStr []);
          unstyled = conv_bool_of (get_default (pd_info data) ''unstyled'' (Some (VStr ''0'')));
          dflt = conv_bool_of (get_default (pd_info data) ''enabled'' (Some (VStr ''0'')));
          styles = map pvalue (find_all [''Style''] (pd_info data));
          lines = map pvalue (find_all [''description''] (pd_info data))
      in if list_all (\<lambda>v. str_of v \<noteq> None) lines
         then Inr \<lparr> sv_id = pd_id data, sv_name = name, sv_default = dflt, sv_enabled = dflt,
                    sv_desc = join_lines (map (\<lambda>v. the (str_of v)) lines),
                    sv_styles = (if unstyled then None else Some styles) \<rparr>
         else Inl (TypeError ''join''))"

text \<open>\<^verbatim>\<open>a in b\<close> for two strings.\<close>

fun is_infix :: "string \<Rightarrow> string \<Rightarrow> bool" where
  "is_infix a [] = (a = [])"
| "is_infix a (c # cs) = (starts_with a (c # cs) \<or> is_infix a cs)"

definition StyleVar_add_over :: "style_var \<Rightarrow> style_var \<Rightarrow> style_var" where
  "StyleVar_add_over self override =
     (case sv_styles self of
        None \<Rightarrow> self
      | Some ss \<Rightarrow>
          (let self1 = self \<lparr> sv_styles := (case sv_styles override of
                                               None \<Rightarrow> None
                                             | Some os \<Rightarrow> Some (ss @ os)) \<rparr>;
               self2 = (if \<not> truthy (Some (sv_name self1))
                        then self1 \<lparr> sv_name := sv_name override \<rparr> else self1);
               stripped_over = strip (sv_desc override)
           in if stripped_over \<noteq> [] \<and> \<not> is_infix stripped_over (sv_desc self2)
              then (if strip (sv_desc self2) \<noteq> []
                    then self2 \<lparr> sv_desc := sv_desc self2 @ [CHR 0x0A, CHR 0x0A] @ sv_desc override \<rparr>
                    else self2 \<lparr> sv_desc := sv_desc override \<rparr>)
              else self2))"

definition StyleVar :: "style_var pak_class" where
  "StyleVar =
     \<lparr> cls_parse = StyleVar_parse,
       cls_add_over = (\<lambda>self override. Inr (StyleVar_add_over self override)),
       cls_id = (\<lambda>self. Some (sv_id self)) \<rparr>"

subsection \<open>Example data\<close>

text \<open>Concrete styles, packages, variants and items, used to instantiate the theorems.\<close>

definition style_A :: style where
  "style_A = \<lparr>style_id = ''A'', base_style = Some ''B''\<rparr>"

definition style_B :: style where
  "style_B = \<lparr>style_id = ''B'', base_style = Some ''A''\<rparr>"

definition style_Root :: style where
  "style_Root = \<lparr>style_id = ''ROOT'', base_style = None\<rparr>"

definition style_Mid :: style where
  "style_Mid = \<lparr>style_id = ''MID'', base_style = Some ''ROOT''\<rparr>"

definition style_Leaf :: style where
  "style_Leaf = \<lparr>style_id = ''LEAF'', base_style = Some ''MID''\<rparr>"

definition cyclic_styles :: style_dict where
  "cyclic_styles = build_all_styles [style_A, style_B]"

definition tree_styles :: style_dict where
  "tree_styles = build_all_styles [style_Root, style_Mid, style_Leaf]"

definition clean_pack :: package where
  "clean_pack = \<lparr> pak_id = ''BEE2_CLEAN_STYLE'', pak_zip = ''packages/clean.zip'',
                  pak_info = Block None [], disp_name = ''Clean Style'', pak_files = [] \<rparr>"

definition other_pack :: package where
  "other_pack = \<lparr> pak_id = ''OTHER'', pak_zip = ''packages/other.zip'',
                  pak_info = Block None [], disp_name = ''Other'', pak_files = [] \<rparr>"

definition disabling_config :: pack_config where
  "disabling_config = [(''BEE2_CLEAN_STYLE'', ''Enabled'') \<mapsto> ''0'', (''OTHER'', ''Enabled'') \<mapsto> ''0'']"

definition style_decl :: "string \<Rightarrow> property" where
  "style_decl oid = Block (Some ''Style'') [Leaf (Some ''ID'') oid, Leaf (Some ''Folder'') ''clean'']"

definition pack_of :: "string \<Rightarrow> property list \<Rightarrow> package" where
  "pack_of pid decls = \<lparr> pak_id = pid, pak_zip = ''packages/'' @ pid @ ''.zip'',
                         pak_info = Block None decls, disp_name = pid, pak_files = [] \<rparr>"

definition first_registry :: registry where
  "first_registry = empty_registry \<lparr> all_obj := (all_obj empty_registry)
      (''Style'' := [(''BEE2_CLEAN'', \<lparr> od_zip_file = ''packages/PAK_ONE.zip'',
                       od_info_block = style_decl ''BEE2_CLEAN'', od_pak_id = ''PAK_ONE'',
                       od_disp_name = ''PAK_ONE'' \<rparr>)],
       ''StyleVar'' := [(''BEE2_CLEAN'', \<lparr> od_zip_file = ''packages/PAK_ONE.zip'',
                       od_info_block = style_decl ''BEE2_CLEAN'', od_pak_id = ''PAK_ONE'',
                       od_disp_name = ''PAK_ONE'' \<rparr>)]) \<rparr>"

text \<open>
  A variant with one subtype and an \<^verbatim>\<open>Instances\<close> block, as an \<^verbatim>\<open>ItemVariant\<close> object
  of a store; and one whose editor block is bare.
\<close>

definition button_editor :: property where
  "button_editor =
     Block (Some ''Item'')
       [Leaf (Some ''Type'') ''ITEM_BUTTON'',
        Block (Some ''Editor'')
          [Block (Some ''SubType'')
             [Leaf (Some ''Name'') ''Button'',
              Block (Some ''Palette'') [Leaf (Some ''Tooltip'') ''BUTTON'',
                                        Leaf (Some ''Image'') ''palette/button.png'']]],
        Block (Some ''Exporting'')
          [Block (Some ''Instances'') [Block (Some ''0'') [Leaf (Some ''Name'') ''button.vmf'']]]]"

definition button_variant :: item_variant where
  "button_variant =
     \<lparr> editor = button_editor, editor_extra = [], vbsp_config = Block None [],
       source = ''<PAK>/items/button'', authors = [''Valve''], tags = [''Test Elements''],
       desc = ''A button.'', icons = [(''0'', VStr ''button.png'')],
       ent_count = Some (VStr ''2''), url = None, all_name = None, all_icon = None \<rparr>"

definition button_heap :: heap where
  "button_heap =
     [PropObj button_editor, ExtraObj [], PropObj (Block None []), StrListObj [''Valve''],
      StrListObj [''Test Elements''], DescObj ''A button.'', IconsObj [(''0'', VStr ''button.png'')]]"

definition button_ref :: variant_ref where
  "button_ref =
     \<lparr> editor_at = 0, editor_extra_at = 1, vbsp_config_at = 2, authors_at = 3, tags_at = 4,
       desc_at = 5, icons_at = 6, source_of = ''<PAK>/items/button'',
       ent_count_of = Some (VStr ''2''), url_of = None, all_name_of = None, all_icon_of = None \<rparr>"

definition bare_heap :: heap where
  "bare_heap =
     [PropObj (Block (Some ''Item'') []), ExtraObj [], PropObj (Block None []),
      StrListObj [''Valve''], StrListObj [], DescObj '''', IconsObj []]"

definition bare_ref :: variant_ref where
  "bare_ref =
     \<lparr> editor_at = 0, editor_extra_at = 1, vbsp_config_at = 2, authors_at = 3, tags_at = 4,
       desc_at = 5, icons_at = 6, source_of = ''<PAK>/items/bare'',
       ent_count_of = None, url_of = None, all_name_of = None, all_icon_of = None \<rparr>"

definition base_only_delta :: property where
  "base_only_delta = Block (Some ''BEE2_CLEAN'') [Leaf (Some ''base'') ''BEE2_1950s'']"

definition bad_palette_delta :: property where
  "bad_palette_delta =
     Block (Some ''BEE2_CLEAN'')
       [Leaf (Some ''base'') ''BEE2_1950s'',
        Block (Some ''Palette'')
          [Block (Some ''0'') [Leaf (Some ''icon'') ''palette/new.png''],
           Block (Some ''5'') [Leaf (Some ''icon'') ''palette/other.png'']]]"

text \<open>
  An item with two subtypes and an \<^verbatim>\<open>OccupiedVoxels\<close> block with a \<^verbatim>\<open>Volume\<close> region,
  completed for one style; and a palette on which only its subtype 1 stands, at place 5.
\<close>

definition good_volume :: property where
  "good_volume = Block (Some ''Volume'') [Leaf (Some ''Pos1'') ''0 0 0'', Leaf (Some ''Pos2'') ''1 1 0'']"

definition bad_volume :: property where
  "bad_volume = Block (Some ''Volume'') [Leaf (Some ''Pos1'') ''0 0 0'']"

definition kept_voxel :: property where
  "kept_voxel = Block (Some ''Voxel'') [Leaf (Some ''Pos'') ''0 0 1'']"

definition good_surface :: property where
  "good_surface =
     Block (Some ''SurfaceVolume'')
       [Leaf (Some ''SubPos1'') ''0 0 0'', Leaf (Some ''SubPos2'') ''1 1 0'', Leaf (Some ''Normal'') ''0 0 1'']"

definition bad_surface :: property where
  "bad_surface = Block (Some ''SurfaceVolume'') [Leaf (Some ''SubPos2'') ''1 1 0'']"

definition cube_subtype :: property where
  "cube_subtype =
     Block (Some ''SubType'')
       [Leaf (Some ''Name'') ''Cube'',
        Block (Some ''Palette'') [Leaf (Some ''Tooltip'') ''CUBE'',
                                  Leaf (Some ''Image'') ''palette/cube.vtf''],
        Block (Some ''Sounds'') []]"

definition sphere_subtype :: property where
  "sphere_subtype =
     Block (Some ''SubType'')
       [Leaf (Some ''Name'') ''Sphere'',
        Block (Some ''Palette'') [Leaf (Some ''Tooltip'') ''SPHERE'',
                                  Leaf (Some ''Image'') ''palette/sphere.vtf'']]"

definition cube_editor :: property where
  "cube_editor =
     Block (Some ''Item'')
       [Leaf (Some ''Type'') ''ITEM_CUBE_BASE'',
        Block (Some ''Editor'')
          [cube_subtype, sphere_subtype, Leaf (Some ''MovementHandle'') ''HANDLE_4_DIRECTIONS''],
        Block (Some ''Exporting'')
          [Block (Some ''Instances'') [],
           Block (Some ''OccupiedVoxels'') [kept_voxel, good_volume, bad_surface]]]"

definition cube_variant :: item_variant where
  "cube_variant =
     \<lparr> editor = cube_editor, editor_extra = [], vbsp_config = Block None [],
       source = ''<PAK>/items/cube'', authors = [''Valve''], tags = [],
       desc = ''A cube.'', icons = [], ent_count = Some (VStr ''1''), url = None,
       all_name = None, all_icon = None \<rparr>"

definition cube_item :: item where
  "cube_item =
     \<lparr> item_id = ''ITEM_CUBE'',
       versions = [(''VER_DEFAULT'',
                    \<lparr> ver_id = ''VER_DEFAULT'', ver_name = ''Regular'',
                      styles = [(''BEE2_CLEAN'', Variant cube_variant)],
                      def_style = DefResolved (Variant cube_variant) \<rparr>)],
       def_ver = ''VER_DEFAULT'', all_conf = Block None [], unstyled = False \<rparr>"

definition some_palette :: "(string \<times> nat) list" where
  "some_palette =
     [(''ITEM_BUTTON'', 0), (''ITEM_BUTTON'', 1), (''ITEM_DOOR'', 0), (''ITEM_LIGHT'', 0),
      (''ITEM_FAN'', 0), (''ITEM_CUBE'', 1)]"

text \<open>
  Items for the completion engine. A variant that is known by its source only; the
  styles \<open>ROOT \<leftarrow> MID \<leftarrow> LEAF\<close> above, and three more: \<open>CLEAN\<close> and \<open>PARENT\<close> with no
  base, \<open>CHILD\<close> with the base \<open>PARENT\<close>.
\<close>

definition plain_variant :: "string \<Rightarrow> item_variant" where
  "plain_variant src =
     \<lparr> editor = Block (Some ''Item'') [], editor_extra = [], vbsp_config = Block None [],
       source = src, authors = [], tags = [], desc = [], icons = [],
       ent_count = None, url = None, all_name = None, all_icon = None \<rparr>"

definition tree_style_data :: "style list" where
  "tree_style_data = [style_Root, style_Mid, style_Leaf]"

text \<open>
  Two versions: the default one defines \<open>ROOT\<close> and reuses it for \<open>MID\<close>
  (\<^verbatim>\<open>"MID" "<ROOT>"\<close>); the other defines \<open>MID\<close> and modifies it for \<open>LEAF\<close>.
\<close>

definition tree_item :: item where
  "tree_item =
     \<lparr> item_id = ''ITEM_TREE'',
       versions =
         [(''VER_DEFAULT'',
           \<lparr> ver_id = ''VER_DEFAULT'', ver_name = ''Regular'',
             styles = [(''ROOT'', Variant (plain_variant ''items/root'')),
                       (''MID'', PropSlot (Leaf None ''ROOT''))],
             def_style = DefName ''ROOT'' \<rparr>),
          (''VER_2'',
           \<lparr> ver_id = ''VER_2'', ver_name = ''Alternate'',
             styles = [(''MID'', Variant (plain_variant ''items/mid2'')),
                       (''LEAF'', PropSlot (Block (Some ''LEAF'') [Leaf (Some ''base'') ''MID'']))],
             def_style = DefName ''MID'' \<rparr>)],
       def_ver = ''VER_DEFAULT'', all_conf = Block None [], unstyled = False \<rparr>"

definition tree_completed :: "item list \<times> bases_map" where
  "tree_completed = projr (setup_style_tree [tree_item] tree_style_data)"

text \<open>An item that defines only \<open>ROOT\<close> and \<open>MID\<close>.\<close>

definition root_mid_item :: item where
  "root_mid_item =
     \<lparr> item_id = ''ITEM_ROOT_MID'',
       versions =
         [(''VER_DEFAULT'',
           \<lparr> ver_id = ''VER_DEFAULT'', ver_name = ''Regular'',
             styles = [(''ROOT'', Variant (plain_variant ''items/root'')),
                       (''MID'', Variant (plain_variant ''items/mid''))],
             def_style = DefName ''ROOT'' \<rparr>)],
       def_ver = ''VER_DEFAULT'', all_conf = Block None [], unstyled = False \<rparr>"

text \<open>An item with a slot for a style that no package declares.\<close>

definition extra_item :: item where
  "extra_item =
     \<lparr> item_id = ''ITEM_EXTRA'',
       versions =
         [(''VER_DEFAULT'',
           \<lparr> ver_id = ''VER_DEFAULT'', ver_name = ''Regular'',
             styles = [(''ROOT'', Variant (plain_variant ''items/root'')),
                       (''UNKNOWN'', Variant (plain_variant ''items/unknown''))],
             def_style = DefName ''ROOT'' \<rparr>)],
       def_ver = ''VER_DEFAULT'', all_conf = Block None [], unstyled = False \<rparr>"

text \<open>
  An item whose \<open>ROOT\<close> reuses \<open>MID\<close>, which reuses \<open>LEAF\<close>:
  \<^verbatim>\<open>"ROOT" "<MID>"\<close>, \<^verbatim>\<open>"MID" "<LEAF>"\<close>, \<^verbatim>\<open>"LEAF" "items/leaf"\<close>.
\<close>

definition chain_item :: item where
  "chain_item =
     \<lparr> item_id = ''ITEM_CHAIN'',
       versions =
         [(''VER_DEFAULT'',
           \<lparr> ver_id = ''VER_DEFAULT'', ver_name = ''Regular'',
             styles = [(''ROOT'', PropSlot (Leaf None ''MID'')),
                       (''MID'', PropSlot (Leaf None ''LEAF'')),
                       (''LEAF'', Variant (plain_variant ''items/leaf''))],
             def_style = DefName ''ROOT'' \<rparr>)],
       def_ver = ''VER_DEFAULT'', all_conf = Block None [], unstyled = False \<rparr>"

text \<open>
  An item whose default version defines \<open>CLEAN\<close> and \<open>CHILD\<close>, and whose second version
  defines \<open>CLEAN\<close> only.
\<close>

definition style_Clean :: style where
  "style_Clean = \<lparr>style_id = ''CLEAN'', base_style = None\<rparr>"

definition style_Parent :: style where
  "style_Parent = \<lparr>style_id = ''PARENT'', base_style = None\<rparr>"

definition style_Child :: style where
  "style_Child = \<lparr>style_id = ''CHILD'', base_style = Some ''PARENT''\<rparr>"

definition order_item :: item where
  "order_item =
     \<lparr> item_id = ''ITEM_ORDER'',
       versions =
         [(''VER_DEFAULT'',
           \<lparr> ver_id = ''VER_DEFAULT'', ver_name = ''Regular'',
             styles = [(''CLEAN'', Variant (plain_variant ''items/clean'')),
                       (''CHILD'', Variant (plain_variant ''items/child''))],
             def_style = DefName ''CLEAN'' \<rparr>),
          (''VER_2'',
           \<lparr> ver_id = ''VER_2'', ver_name = ''Alternate'',
             styles = [(''CLEAN'', Variant (plain_variant ''items/clean2''))],
             def_style = DefName ''CLEAN'' \<rparr>)],
       def_ver = ''VER_DEFAULT'', all_conf = Block None [], unstyled = False \<rparr>"

text \<open>
  A style variable declared by two packages: the second declaration adds a style and a
  description. \<open>var_registry\<close> is the registry once the first package is read.
\<close>

definition stylevar_decl :: "string \<Rightarrow> string \<Rightarrow> string \<Rightarrow> property" where
  "stylevar_decl oid sty text =
     Block (Some ''StyleVar'')
       [Leaf (Some ''ID'') oid, Leaf (Some ''Name'') ''Fix fizzlers'',
        Leaf (Some ''Style'') sty, Leaf (Some ''Description'') text]"

definition var_pack_two :: package where
  "var_pack_two = pack_of ''PAK_TWO'' [stylevar_decl ''FixFizz'' ''BEE2_1950s'' ''Also in the fifties.'']"

definition var_registry :: registry where
  "var_registry = empty_registry \<lparr> all_obj := (all_obj empty_registry)
      (''StyleVar'' := [(''FixFizz'', \<lparr> od_zip_file = ''packages/PAK_ONE.zip'',
                       od_info_block = stylevar_decl ''FixFizz'' ''BEE2_CLEAN'' ''Fixes fizzlers.'',
                       od_pak_id = ''PAK_ONE'', od_disp_name = ''PAK_ONE'' \<rparr>)]) \<rparr>"

text \<open>
  The item with a second \<^verbatim>\<open>Volume\<close> region in its \<^verbatim>\<open>OccupiedVoxels\<close> block, and with a
  region that lacks a corner in place of the first.
\<close>

definition second_volume :: property where
  "second_volume = Block (Some ''Volume'') [Leaf (Some ''Pos1'') ''2 0 0'', Leaf (Some ''Pos2'') ''2 0 0'']"

definition voxel_item :: "property list \<Rightarrow> item" where
  "voxel_item parts =
     \<lparr> item_id = ''ITEM_CUBE'',
       versions =
         [(''VER_DEFAULT'',
           \<lparr> ver_id = ''VER_DEFAULT'', ver_name = ''Regular'',
             styles =
               [(''BEE2_CLEAN'',
                 Variant (cube_variant \<lparr> editor :=
                   Block (Some ''Item'')
                     [Block (Some ''Exporting'') [Block (Some ''OccupiedVoxels'') parts]] \<rparr>))],
             def_style = DefName ''BEE2_CLEAN'' \<rparr>)],
       def_ver = ''VER_DEFAULT'', all_conf = Block None [], unstyled = False \<rparr>"

text \<open>The \<^verbatim>\<open>OccupiedVoxels\<close> children of an exported editor block, and the log.\<close>

definition exported_voxels :: "error + (property \<times> property \<times> property) \<times> string list
    \<Rightarrow> error + property list \<times> string list" where
  "exported_voxels result =
     (case result of
        Inl e \<Rightarrow> Inl e
      | Inr ((ed, extra, conf), log) \<Rightarrow>
          Inr (concat (map children (find_all [''Exporting'', ''OccupiedVoxels''] ed)), log))"

text \<open>A delta whose \<^verbatim>\<open>Palette\<close> block names the subtype \<^verbatim>\<open>-1\<close>.\<close>

definition negative_palette_delta :: property where
  "negative_palette_delta =
     Block (Some ''BEE2_CLEAN'')
       [Leaf (Some ''base'') ''BEE2_1950s'',
        Block (Some ''Palette'')
          [Block (Some ''-1'') [Leaf (Some ''icon'') ''palette/new.png'',
                                Leaf (Some ''pal_name'') ''NEW'']]]"

section \<open>The style resolver\<close>

lemma ancestor_add:
  "ancestor all_styles (a + b) s =
     (case ancestor all_styles a s of None \<Rightarrow> None | Some t \<Rightarrow> ancestor all_styles b t)"
  by (induction b) (auto split: option.splits)

lemma ancestor_None_mono:
  "ancestor all_styles i s = None \<Longrightarrow> i \<le> j \<Longrightarrow> ancestor all_styles j s = None"
  by (induction j) (auto simp: le_Suc_eq)

text \<open>
  The loop invariant: \<open>base\<close> holds the ancestors \<open>0, \<dots>, n - 1\<close> of the style the walk
  started from, without repetition, and \<^verbatim>\<open>b_style\<close> is ancestor \<open>n\<close>.
\<close>

lemma find_bases_trace:
  assumes "length base = n"
    and "\<forall>i<n. ancestor all_styles i s = Some (base ! i)"
    and "cur = ancestor all_styles n s"
    and "distinct base"
  shows "case find_bases all_styles base cur of
           Inr chain \<Rightarrow> n \<le> length chain \<and> distinct chain
              \<and> (\<forall>i<length chain. ancestor all_styles i s = Some (chain ! i))
              \<and> ancestor all_styles (length chain) s = None
         | Inl e \<Rightarrow> \<exists>i j t. i < j \<and> ancestor all_styles i s = Some t
              \<and> ancestor all_styles j s = Some t \<and> e = LoopInBases (style_id t)"
  using assms
proof (induction all_styles base cur arbitrary: n rule: find_bases.induct)
  case (1 all_styles base)
  then show ?case by simp
next
  case (2 all_styles base b_style)
  show ?case
  proof (cases "b_style \<in> set base")
    case True
    then obtain i where i: "i < length base" "base ! i = b_style"
      by (auto simp: in_set_conv_nth)
    with 2 have "ancestor all_styles i s = Some b_style" "ancestor all_styles n s = Some b_style" "i < n"
      by auto
    with True show ?thesis by auto
  next
    case False
    have len: "length (base @ [b_style]) = Suc n" using 2 by simp
    have pre: "\<forall>i<Suc n. ancestor all_styles i s = Some ((base @ [b_style]) ! i)"
      using 2(2,3,4) by (auto simp: nth_append less_Suc_eq)
    have cur: "get_base all_styles b_style = ancestor all_styles (Suc n) s"
      using 2(4) by (simp add: eq_commute[of "Some b_style"])
    have dist: "distinct (base @ [b_style])" using 2(5) False by simp
    from "2.IH"[OF False len pre cur dist] False show ?thesis
      by (auto split: sum.splits)
  qed
qed

lemma find_bases_start:
  "case find_bases all_styles [] (Some s) of
           Inr chain \<Rightarrow> distinct chain
              \<and> (\<forall>i<length chain. ancestor all_styles i s = Some (chain ! i))
              \<and> ancestor all_styles (length chain) s = None
         | Inl e \<Rightarrow> \<exists>i j t. i < j \<and> ancestor all_styles i s = Some t
              \<and> ancestor all_styles j s = Some t \<and> e = LoopInBases (style_id t)"
  using find_bases_trace[of "[]" 0 all_styles s "Some s"] by (auto split: sum.splits)

lemma find_bases_loop_iff:
  "(\<exists>e. find_bases all_styles [] (Some s) = Inl e) \<longleftrightarrow> has_loop all_styles s"
proof
  assume "\<exists>e. find_bases all_styles [] (Some s) = Inl e"
  then obtain e where e: "find_bases all_styles [] (Some s) = Inl e" by blast
  with find_bases_start[of all_styles s] obtain i j t where
    "i < j" "ancestor all_styles i s = Some t" "ancestor all_styles j s = Some t" by auto
  then show "has_loop all_styles s"
    unfolding has_loop_def by (intro exI[of _ i] exI[of _ j]) simp
next
  assume hl: "has_loop all_styles s"
  show "\<exists>e. find_bases all_styles [] (Some s) = Inl e"
  proof (cases "find_bases all_styles [] (Some s)")
    case (Inl e) then show ?thesis by blast
  next
    case (Inr chain)
    with find_bases_start[of all_styles s] have d: "distinct chain"
      and a: "\<forall>i<length chain. ancestor all_styles i s = Some (chain ! i)"
      and z: "ancestor all_styles (length chain) s = None" by auto
    from hl obtain i j where ij: "i < j" "ancestor all_styles i s = ancestor all_styles j s"
      "ancestor all_styles j s \<noteq> None" unfolding has_loop_def by blast
    have "j < length chain"
      using ancestor_None_mono[OF z, of j] ij(3) by (cases "j < length chain") auto
    with ij a have "chain ! i = chain ! j" "i < length chain" by auto
    with d ij(1) \<open>j < length chain\<close> have False by (auto simp: distinct_conv_nth)
    then show ?thesis ..
  qed
qed

lemma loop_on_cycle:
  assumes "i < j" "ancestor all_styles i s = Some t" "ancestor all_styles j s = Some t"
  shows "on_cycle all_styles t"
proof -
  have "ancestor all_styles (i + (j - i)) s = Some t" using assms by simp
  then have "ancestor all_styles (j - i) t = Some t"
    using assms(2) by (simp add: ancestor_add)
  with assms(1) show ?thesis unfolding on_cycle_def by (intro exI[of _ "j - i"]) simp
qed

lemma find_bases_error:
  assumes "find_bases all_styles [] (Some s) = Inl e"
  shows "\<exists>t. e = LoopInBases (style_id t) \<and> on_cycle all_styles t"
  using find_bases_start[of all_styles s] assms by (auto intro: loop_on_cycle)

lemma set_bases_loop:
  assumes "\<exists>s \<in> snd ` set todo. has_loop all_styles s"
  shows "\<exists>t. set_bases all_styles todo = Inl (LoopInBases (style_id t)) \<and> on_cycle all_styles t"
  using assms
proof (induction todo)
  case Nil
  then show ?case by simp
next
  case (Cons p todo)
  obtain sty_id s where p: "p = (sty_id, s)" by (cases p)
  show ?case
  proof (cases "find_bases all_styles [] (Some s)")
    case (Inl e)
    with find_bases_error[OF Inl] p show ?thesis by auto
  next
    case (Inr base)
    then have "\<not> has_loop all_styles s"
      using find_bases_loop_iff[of all_styles s] by auto
    with Cons.prems p have "\<exists>s \<in> snd ` set todo. has_loop all_styles s" by auto
    from Cons.IH[OF this] Inr p show ?thesis by auto
  qed
qed

lemma set_bases_no_loop:
  assumes "\<forall>s \<in> snd ` set todo. \<not> has_loop all_styles s"
  shows "\<exists>bases. set_bases all_styles todo = Inr bases \<and> map fst bases = map fst todo"
  using assms
proof (induction todo)
  case Nil
  then show ?case by simp
next
  case (Cons p todo)
  obtain sty_id s where p: "p = (sty_id, s)" by (cases p)
  from Cons.prems p have "\<not> has_loop all_styles s" by auto
  then obtain base where base: "find_bases all_styles [] (Some s) = Inr base"
    using find_bases_loop_iff[of all_styles s] by (cases "find_bases all_styles [] (Some s)") auto
  from Cons.prems have "\<forall>s \<in> snd ` set todo. \<not> has_loop all_styles s" by auto
  from Cons.IH[OF this] base p show ?case by auto
qed

lemma set_bases_entries:
  assumes "set_bases all_styles todo = Inr bases_of"
  shows "bases_of = map (\<lambda>(sty_id, s). (sty_id, projr (find_bases all_styles [] (Some s)))) todo
         \<and> (\<forall>(sty_id, s) \<in> set todo. \<not> isl (find_bases all_styles [] (Some s)))"
  using assms
  by (induction todo arbitrary: bases_of) (auto split: sum.splits simp del: find_bases.simps)

lemma find_bases_shape:
  assumes "find_bases all_styles [] (Some s) = Inr bases"
  shows "bases \<noteq> [] \<and> bases ! 0 = s
    \<and> (\<forall>i. Suc i < length bases \<longrightarrow> get_base all_styles (bases ! i) = Some (bases ! Suc i))
    \<and> get_base all_styles (last bases) = None \<and> distinct bases"
proof -
  from find_bases_start[of all_styles s] assms have d: "distinct bases"
    and a: "\<forall>i<length bases. ancestor all_styles i s = Some (bases ! i)"
    and z: "ancestor all_styles (length bases) s = None" by auto
  from z have ne: "bases \<noteq> []" by (cases bases) auto
  then have len: "0 < length bases" by simp
  with a have first: "bases ! 0 = s" by fastforce
  have step: "get_base all_styles (bases ! i) = Some (bases ! Suc i)" if "Suc i < length bases" for i
  proof -
    have nxt: "ancestor all_styles (Suc i) s = Some (bases ! Suc i)"
      using a that by blast
    have "i < length bases" using that by simp
    with a have "ancestor all_styles i s = Some (bases ! i)" by blast
    with nxt show ?thesis by simp
  qed
  obtain k where k: "length bases = Suc k" using len by (cases "length bases") auto
  with a have "ancestor all_styles k s = Some (bases ! k)" by simp
  with z k have "get_base all_styles (bases ! k) = None" by simp
  moreover have "last bases = bases ! k" using ne k by (simp add: last_conv_nth)
  ultimately show ?thesis using ne first step d by simp
qed

text \<open>
  Claim C4. Resolution of the base chains always returns (\<open>find_bases\<close> is a total
  function: its termination is proved where it is defined). When the
  \<^verbatim>\<open>base_style\<close> references of some style of the dict run into a cycle, the resolution
  raises \<^verbatim>\<open>Loop in bases for "<id>"\<close>, where the style named lies on a cycle; when no
  style does, it returns a chain for every key of the dict.
\<close>

theorem style_cycle_fails_acyclic_resolves:
  "((\<exists>s \<in> snd ` set all_styles. has_loop all_styles s) \<longrightarrow>
      (\<exists>t. resolve_bases all_styles = Inl (LoopInBases (style_id t)) \<and> on_cycle all_styles t))
   \<and> ((\<forall>s \<in> snd ` set all_styles. \<not> has_loop all_styles s) \<longrightarrow>
      (\<exists>bases_of. resolve_bases all_styles = Inr bases_of \<and> map fst bases_of = map fst all_styles))"
  unfolding resolve_bases_def
  using set_bases_loop[of all_styles all_styles] set_bases_no_loop[of all_styles all_styles]
  by blast

lemma cyclic_styles_eq: "cyclic_styles = [(''A'', style_A), (''B'', style_B)]"
  by (simp add: cyclic_styles_def build_all_styles_def style_A_def style_B_def)

lemma tree_styles_eq:
  "tree_styles = [(''ROOT'', style_Root), (''MID'', style_Mid), (''LEAF'', style_Leaf)]"
  by (simp add: tree_styles_def build_all_styles_def style_Root_def style_Mid_def style_Leaf_def)

lemma tree_styles_resolved:
  "resolve_bases tree_styles =
     Inr [(''ROOT'', [style_Root]), (''MID'', [style_Mid, style_Root]),
          (''LEAF'', [style_Leaf, style_Mid, style_Root])]"
  by (simp add: tree_styles_eq resolve_bases_def get_base_def
        style_Root_def style_Mid_def style_Leaf_def)

lemma cyclic_styles_loop: "has_loop cyclic_styles style_A"
  unfolding has_loop_def
  by (intro exI[of _ 0] exI[of _ 2])
     (simp add: numeral_2_eq_2 cyclic_styles_eq get_base_def style_A_def style_B_def)

theorem style_cycle_fails_acyclic_resolves_witness:
  "has_loop cyclic_styles style_A
   \<and> resolve_bases cyclic_styles = Inl (LoopInBases ''A'')
   \<and> \<not> has_loop tree_styles style_Root
   \<and> \<not> has_loop tree_styles style_Mid
   \<and> \<not> has_loop tree_styles style_Leaf
   \<and> (\<exists>bases_of. resolve_bases tree_styles = Inr bases_of
         \<and> map fst bases_of = [''ROOT'', ''MID'', ''LEAF''])"
proof -
  have c: "\<exists>s \<in> snd ` set cyclic_styles. has_loop cyclic_styles s"
    using cyclic_styles_loop by (auto simp: cyclic_styles_eq intro!: bexI[of _ style_A])
  from style_cycle_fails_acyclic_resolves[of cyclic_styles, THEN conjunct1, THEN mp, OF c]
  obtain t :: style where "resolve_bases cyclic_styles = Inl (LoopInBases (style_id t))"
    by blast
  moreover have "resolve_bases cyclic_styles = Inl (LoopInBases ''A'')"
    by (simp add: cyclic_styles_eq resolve_bases_def get_base_def style_A_def style_B_def)
  ultimately have r: "resolve_bases cyclic_styles = Inl (LoopInBases ''A'')" by simp
  have t: "\<forall>s \<in> snd ` set tree_styles. \<not> has_loop tree_styles s"
  proof (rule ccontr)
    assume "\<not> ?thesis"
    then have "\<exists>s \<in> snd ` set tree_styles. has_loop tree_styles s" by simp
    with style_cycle_fails_acyclic_resolves[of tree_styles]
    show False by (simp add: tree_styles_resolved)
  qed
  from style_cycle_fails_acyclic_resolves[of tree_styles, THEN conjunct2, THEN mp, OF t]
  have "\<exists>bases_of. resolve_bases tree_styles = Inr bases_of
         \<and> map fst bases_of = map fst tree_styles" .
  then have b: "\<exists>bases_of. resolve_bases tree_styles = Inr bases_of
         \<and> map fst bases_of = [''ROOT'', ''MID'', ''LEAF'']" by (simp add: tree_styles_eq)
  from t have "\<not> has_loop tree_styles style_Root" "\<not> has_loop tree_styles style_Mid"
    "\<not> has_loop tree_styles style_Leaf" by (simp_all add: tree_styles_eq)
  with cyclic_styles_loop r b show ?thesis by blast
qed

text \<open>
  Claim C9. When the resolution succeeds, the chain stored for every style of the dict
  starts with the style itself, each next element is the style that the dict gives for
  the \<^verbatim>\<open>base_style\<close> of the one before, and the last element has no parent: its
  \<^verbatim>\<open>base_style\<close> is \<^verbatim>\<open>None\<close> or names no style of the dict. No style occurs twice.
\<close>

theorem resolved_bases_chain:
  assumes "resolve_bases all_styles = Inr bases_of"
    and "(sty_id, s) \<in> set all_styles"
  shows "\<exists>bases. (sty_id, bases) \<in> set bases_of
    \<and> find_bases all_styles [] (Some s) = Inr bases
    \<and> bases \<noteq> [] \<and> bases ! 0 = s
    \<and> (\<forall>i. Suc i < length bases \<longrightarrow> get_base all_styles (bases ! i) = Some (bases ! Suc i))
    \<and> get_base all_styles (last bases) = None \<and> distinct bases"
proof -
  from set_bases_entries[OF assms(1)[unfolded resolve_bases_def]] assms(2)
  have mem: "(sty_id, projr (find_bases all_styles [] (Some s))) \<in> set bases_of"
    and ok: "\<not> isl (find_bases all_styles [] (Some s))" by (auto intro!: rev_image_eqI)
  from ok obtain bases where b: "find_bases all_styles [] (Some s) = Inr bases"
    by (cases "find_bases all_styles [] (Some s)") (auto simp del: find_bases.simps)
  with mem find_bases_shape[OF b] show ?thesis by (auto simp del: find_bases.simps)
qed

theorem resolved_bases_chain_witness:
  "resolve_bases tree_styles =
     Inr [(''ROOT'', [style_Root]), (''MID'', [style_Mid, style_Root]),
          (''LEAF'', [style_Leaf, style_Mid, style_Root])]
   \<and> (''LEAF'', style_Leaf) \<in> set tree_styles
   \<and> find_bases tree_styles [] (Some style_Leaf) = Inr [style_Leaf, style_Mid, style_Root]
   \<and> get_base tree_styles style_Leaf = Some style_Mid
   \<and> get_base tree_styles style_Root = None"
proof -
  have m: "(''LEAF'', style_Leaf) \<in> set tree_styles" by (simp add: tree_styles_eq)
  from resolved_bases_chain[OF tree_styles_resolved m]
  have "find_bases tree_styles [] (Some style_Leaf) = Inr [style_Leaf, style_Mid, style_Root]"
    by (auto simp: style_Leaf_def style_Mid_def style_Root_def)
  moreover have "get_base tree_styles style_Leaf = Some style_Mid"
    "get_base tree_styles style_Root = None"
    by (simp_all add: tree_styles_eq get_base_def style_Leaf_def style_Mid_def style_Root_def)
  ultimately show ?thesis using m tree_styles_resolved by simp
qed

section \<open>The variant patch engine\<close>

text \<open>A palette entry that is neither \<^verbatim>\<open>all\<close> nor the index of a subtype.\<close>

lemma palette_step_invalid:
  assumes "pname item \<noteq> Some ''all''" and "subtype_index n (pname item) = None"
  shows "palette_step n src variant item = Inl (InvalidIndex (show_name (pname item)) src)"
  using assms by (simp add: palette_step_def Let_def)

lemma palette_step_error:
  assumes "palette_step n src variant item = Inl e"
  shows "e = InvalidIndex (show_name (pname item)) src
         \<and> pname item \<noteq> Some ''all'' \<and> subtype_index n (pname item) = None"
  using assms by (auto simp: palette_step_def Let_def split: if_splits option.splits)

lemma palette_loop_invalid:
  assumes "item \<in> set items" and "pname item \<noteq> Some ''all''"
    and "subtype_index n (pname item) = None"
  shows "\<exists>bad \<in> set items. pname bad \<noteq> Some ''all'' \<and> subtype_index n (pname bad) = None
           \<and> palette_loop n src variant items = Inl (InvalidIndex (show_name (pname bad)) src)"
  using assms
proof (induction items arbitrary: variant)
  case Nil
  then show ?case by simp
next
  case (Cons x items)
  show ?case
  proof (cases "palette_step n src variant x")
    case (Inl e)
    from palette_step_error[OF Inl] Inl show ?thesis by auto
  next
    case (Inr v)
    have "x \<noteq> item"
    proof
      assume "x = item"
      with palette_step_invalid[OF Cons.prems(2,3), of src variant] Inr show False by simp
    qed
    with Cons.prems(1) have "item \<in> set items" by simp
    from Cons.IH[OF this Cons.prems(2,3), of v] Inr show ?thesis by auto
  qed
qed

lemma modify_init_editor:
  "modify_init self props src = Inr variant \<Longrightarrow> editor variant = editor self"
  by (auto simp: modify_init_def Let_def split: sum.splits if_splits)

text \<open>
  What the loop rejects. A \<^verbatim>\<open>Palette\<close> block of the delta with a child whose key is not
  \<^verbatim>\<open>all\<close> and is no index into the subtypes of the base's editor block (\<^verbatim>\<open>int()\<close>
  rejects the key, or \<^verbatim>\<open>subtypes[...]\<close> raises \<^verbatim>\<open>IndexError\<close>; as everywhere in
  Python a negative index counts from the end) makes \<^verbatim>\<open>modify\<close> raise. Unless an
  earlier part of the delta (description, authors, tags) has already raised, the
  exception is \<^verbatim>\<open>Invalid index "<key>" when modifying editoritems for <source>\<close>, for
  the first such child; no variant is returned.
\<close>

theorem modify_invalid_index:
  assumes "item \<in> set (find_children [''Palette''] props)"
    and "pname item \<noteq> Some ''all''"
    and "subtype_index (length (find_all [''Editor'', ''SubType''] (editor self))) (pname item) = None"
  shows "(\<exists>e. modify self props src = Inl e)
    \<and> (\<not> isl (modify_init self props src) \<longrightarrow>
         (\<exists>bad \<in> set (find_children [''Palette''] props).
            pname bad \<noteq> Some ''all''
            \<and> subtype_index (length (find_all [''Editor'', ''SubType''] (editor self))) (pname bad) = None
            \<and> modify self props src = Inl (InvalidIndex (show_name (pname bad)) src)))"
proof (cases "modify_init self props src")
  case (Inl e)
  then show ?thesis by (simp add: modify_def)
next
  case (Inr variant)
  from modify_init_editor[OF Inr] have ed: "editor variant = editor self" .
  from palette_loop_invalid[OF assms, of src variant]
  obtain bad where bad: "bad \<in> set (find_children [''Palette''] props)"
    "pname bad \<noteq> Some ''all''"
    "subtype_index (length (find_all [''Editor'', ''SubType''] (editor self))) (pname bad) = None"
    "palette_loop (length (find_all [''Editor'', ''SubType''] (editor self))) src variant
       (find_children [''Palette''] props) = Inl (InvalidIndex (show_name (pname bad)) src)"
    by blast
  from bad(4) Inr ed have "modify self props src = Inl (InvalidIndex (show_name (pname bad)) src)"
    by (simp add: modify_def)
  with bad(1,2,3) Inr show ?thesis by auto
qed

text \<open>The last element with a property, and what \<open>update_last\<close> does to it.\<close>

lemma update_last_split:
  assumes "P c" and "\<forall>y \<in> set post. \<not> P y"
  shows "update_last P f (pre @ c # post) = pre @ f c # post"
  using assms by (induction pre) (auto simp: list_ex_iff)

lemma update_last_none:
  "\<not> list_ex P xs \<Longrightarrow> update_last P f xs = xs"
  by (induction xs) (auto simp: list_ex_iff)

lemma find_skip: "\<forall>y \<in> set ys. \<not> P y \<Longrightarrow> find P (ys @ zs) = find P zs"
  by (induction ys) auto

lemma find_rev_split:
  assumes "P c" and "\<forall>y \<in> set post. \<not> P y"
  shows "find P (rev (pre @ c # post)) = Some c"
  using assms find_skip[of "rev post" P "c # rev pre"] by simp

lemma last_split:
  assumes "list_ex P xs"
  shows "\<exists>pre c post. xs = pre @ c # post \<and> P c \<and> (\<forall>y \<in> set post. \<not> P y)"
  using assms split_list_last_prop[of xs P] by (auto simp: list_ex_iff)

lemma find_key_None: "find_key key p = None \<longleftrightarrow> \<not> contains key p"
  by (auto simp: find_key_def contains_def find_None_iff list_ex_iff)

lemma get_default_absent: "\<not> contains key p \<Longrightarrow> get_default p key d = d"
  using find_key_None[of key p] by (simp add: get_default_def)

lemma find_children_absent: "\<not> contains key p \<Longrightarrow> find_children [key] p = []"
  by (auto simp: find_children_def contains_def list_ex_iff filter_empty_conv)

lemma named_set_children [simp]: "named key (set_children c ks) = named key c"
  by (simp add: named_def pname_def set_children_def)

lemma children_set_children [simp]: "children (set_children c ks) = ks"
  by (simp add: children_def set_children_def)

lemma set_children_children: "has_children p \<Longrightarrow> set_children p (children p) = p"
  by (cases p) (simp_all add: set_children_def children_def has_children_def)

lemma has_children_set_children [simp]: "has_children (set_children c ks)"
  by (simp add: has_children_def set_children_def)

lemma set_children_twice [simp]: "set_children (set_children p ks) ks' = set_children p ks'"
  by (simp add: set_children_def)

lemma ensure_exists_contains: "contains key (ensure_exists key p)"
  by (simp add: ensure_exists_def contains_def append_child_def named_def pname_def)

lemma ensure_exists_named [simp]: "named k (ensure_exists key p) = named k p"
  by (simp add: ensure_exists_def append_child_def)

lemma ensure_exists_block:
  "contains key p \<Longrightarrow> has_children p"
  by (cases p) (simp_all add: contains_def children_def has_children_def)

lemma ensure_exists_has_children: "has_children (ensure_exists key p)"
  using ensure_exists_block[of key p] by (simp add: ensure_exists_def append_child_def)

text \<open>Putting back the last child of a name, unchanged, changes nothing.\<close>

lemma in_child_same:
  assumes "has_children p" and "find_key key p = Some c"
  shows "in_child key (\<lambda>old. c) p = p"
proof -
  from assms(2) have "list_ex (named key) (children p)"
    using find_key_None[of key p] by (auto simp: contains_def)
  from last_split[OF this] obtain pre c' post where
    sp: "children p = pre @ c' # post" "named key c'" "\<forall>y \<in> set post. \<not> named key y" by blast
  from find_rev_split[OF sp(2,3), of pre] assms(2) sp(1) have "c' = c"
    by (simp add: find_key_def)
  with update_last_split[OF sp(2,3), of "\<lambda>old. c" pre] sp(1)
  have "update_last (named key) (\<lambda>old. c) (children p) = children p" by simp
  with assms(1) show ?thesis by (simp add: in_child_def set_children_children)
qed

lemma in_child_id:
  assumes "has_children p" and "find_key key p = Some c" and "f c = c"
  shows "in_child key f p = p"
proof -
  from assms(2) have "list_ex (named key) (children p)"
    using find_key_None[of key p] by (auto simp: contains_def)
  from last_split[OF this] obtain pre c' post where
    sp: "children p = pre @ c' # post" "named key c'" "\<forall>y \<in> set post. \<not> named key y" by blast
  from find_rev_split[OF sp(2,3), of pre] assms(2) sp(1) have "c' = c"
    by (simp add: find_key_def)
  with update_last_split[OF sp(2,3), of f pre] sp(1) assms(3)
  have "update_last (named key) f (children p) = children p" by simp
  with assms(1) show ?thesis by (simp add: in_child_def set_children_children)
qed

lemma find_key_in_child:
  assumes "find_key key p = Some c" and "named key (f c)"
  shows "find_key key (in_child key f p) = Some (f c)"
proof -
  from assms(1) have "list_ex (named key) (children p)"
    using find_key_None[of key p] by (auto simp: contains_def)
  from last_split[OF this] obtain pre c' post where
    sp: "children p = pre @ c' # post" "named key c'" "\<forall>y \<in> set post. \<not> named key y" by blast
  from find_rev_split[OF sp(2,3), of pre] assms(1) sp(1) have c: "c' = c"
    by (simp add: find_key_def)
  from update_last_split[OF sp(2,3), of f pre] sp(1) c
  have "children (in_child key f p) = pre @ f c # post" by (simp add: in_child_def)
  with find_rev_split[OF assms(2) sp(3), of pre] show ?thesis by (simp add: find_key_def)
qed

lemma find_key_Some_contains: "contains key p \<Longrightarrow> \<exists>c. find_key key p = Some c \<and> named key c"
  using find_key_None[of key p]
  by (cases "find_key key p") (auto simp: find_key_def dest: find_Some_iff[THEN iffD1])

text \<open>
  After \<^verbatim>\<open>ensure_exists('Exporting').ensure_exists('Instances')\<close> both blocks are there,
  and writing the \<^verbatim>\<open>Instances\<close> block back as it is leaves the editor block as it is.
\<close>

lemma put_the_instances:
  "put_instances (the_instances (ensure_instances ed)) (ensure_instances ed) = ensure_instances ed"
proof -
  let ?e1 = "ensure_exists ''Exporting'' ed"
  have b1: "has_children ?e1" by (rule ensure_exists_has_children)
  from find_key_Some_contains[OF ensure_exists_contains[of "''Exporting''" ed]]
  obtain ex where ex: "find_key ''Exporting'' ?e1 = Some ex" "named ''Exporting'' ex" by blast
  let ?ex1 = "ensure_exists ''Instances'' ex"
  have n1: "named ''Exporting'' ?ex1" using ex(2) by simp
  have e2: "find_key ''Exporting'' (ensure_instances ed) = Some ?ex1"
    unfolding ensure_instances_def by (rule find_key_in_child[where f = "ensure_exists ''Instances''", OF ex(1) n1])
  have b2: "has_children (ensure_instances ed)"
    by (simp add: ensure_instances_def in_child_def)
  from find_key_Some_contains[OF ensure_exists_contains[of "''Instances''" ex]]
  obtain i where i: "find_key ''Instances'' ?ex1 = Some i" by blast
  have bx: "has_children ?ex1" by (rule ensure_exists_has_children)
  have "the_instances (ensure_instances ed) = i"
    by (simp add: the_instances_def e2 i)
  moreover have "in_child ''Instances'' (\<lambda>old. i) ?ex1 = ?ex1"
    by (rule in_child_same[OF bx i])
  ultimately show ?thesis
    unfolding put_instances_def
    using in_child_id[where f = "in_child ''Instances'' (\<lambda>old. i)", OF b2 e2] by simp
qed

lemma ensure_instances_present:
  assumes "has_instances ed"
  shows "ensure_instances ed = ed"
proof -
  from assms obtain ex where ex: "has_children ed" "find_key ''Exporting'' ed = Some ex"
    "has_children ex" "contains ''Instances'' ex"
    by (auto simp: has_instances_def split: option.splits)
  from ex(2) have c: "contains ''Exporting'' ed" using find_key_None[of "''Exporting''" ed] by auto
  have "ensure_exists ''Instances'' ex = ex" using ex(4) by (simp add: ensure_exists_def)
  from in_child_id[where f = "ensure_exists ''Instances''", OF ex(1,2) this] c show ?thesis
    by (simp add: ensure_instances_def ensure_exists_def)
qed

text \<open>The value \<^verbatim>\<open>modify\<close> returns for a delta with none of its keys.\<close>

lemma modify_empty_value:
  assumes "empty_delta props"
  shows "modify self props src =
           Inr (self \<lparr> editor := ensure_instances (editor self),
                       source := from_source src (source self) \<rparr>)"
proof -
  from assms have k: "\<not> contains ''config'' props" "\<not> contains ''description'' props"
    "\<not> contains ''authors'' props" "\<not> contains ''tags'' props" "\<not> contains ''ent_count'' props"
    "\<not> contains ''url'' props" "\<not> contains ''Palette'' props" "\<not> contains ''Instances'' props"
    by (simp_all add: empty_delta_def)
  have init: "modify_init self props src = Inr (self \<lparr> source := from_source src (source self) \<rparr>)"
    using k by (simp add: modify_init_def get_default_absent)
  show ?thesis
    unfolding modify_def init
    by (simp add: find_children_absent[OF k(7)] find_children_absent[OF k(8)] put_the_instances)
qed

text \<open>Reading a variant depends only on the seven objects it refers to.\<close>

lemma load_bounds:
  assumes "load h r = Some v"
  shows "\<forall>a \<in> addresses r. a < length h"
  using assms
  by (auto simp: load_def addresses_def prop_at_def extra_at_def strs_at_def text_at_def
        icons_in_def split: option.splits if_splits)

lemma load_same:
  assumes "\<forall>a \<in> addresses r. a < length h \<and> a < length h' \<and> h' ! a = h ! a"
  shows "load h' r = load h r"
proof -
  have 1: "prop_at h' (editor_at r) = prop_at h (editor_at r)"
    and 2: "extra_at h' (editor_extra_at r) = extra_at h (editor_extra_at r)"
    and 3: "prop_at h' (vbsp_config_at r) = prop_at h (vbsp_config_at r)"
    and 4: "strs_at h' (authors_at r) = strs_at h (authors_at r)"
    and 5: "strs_at h' (tags_at r) = strs_at h (tags_at r)"
    and 6: "text_at h' (desc_at r) = text_at h (desc_at r)"
    and 7: "icons_in h' (icons_at r) = icons_in h (icons_at r)"
    using assms
    by (simp_all add: addresses_def prop_at_def extra_at_def strs_at_def text_at_def icons_in_def)
  show ?thesis unfolding load_def 1 2 3 4 5 6 7 ..
qed

lemma load_append:
  assumes "load h r = Some v"
  shows "load (h @ more_objs) r = Some v"
proof -
  from load_bounds[OF assms] have "\<forall>a \<in> addresses r. a < length h \<and> a < length (h @ more_objs)
      \<and> (h @ more_objs) ! a = h ! a"
    by (auto simp: nth_append)
  from load_same[OF this] assms show ?thesis by simp
qed

lemma load_update_outside:
  assumes "load h r = Some v" and "a \<notin> addresses r"
  shows "load (h[a := x]) r = Some v"
proof -
  from load_bounds[OF assms(1)] assms(2)
  have "\<forall>b \<in> addresses r. b < length h \<and> b < length (h[a := x]) \<and> (h[a := x]) ! b = h ! b"
    by (metis length_list_update nth_list_update_neq)
  from load_same[OF this] assms(1) show ?thesis by simp
qed

text \<open>
  Claim C3, as the code has it. For a base variant of the store and a delta with none of
  the keys \<^verbatim>\<open>modify\<close> reads, \<^verbatim>\<open>modify\<close> returns a variant whose config, extra editor
  blocks, authors, tags, description, icons, grouped name and icon, entity count and url
  are the base's, and whose editor block is the base's after
  \<^verbatim>\<open>ensure_exists('Exporting').ensure_exists('Instances')\<close>: the base's own editor
  block when that already has the two blocks. The base reads as before, and it still
  does after any write to the editor block, the extra blocks, the config, the tags, the
  description or the icons of the new variant. The authors list of the new variant is
  the list object of the base.
\<close>

theorem modify_empty_delta:
  assumes "load h self = Some base" and "empty_delta props"
  shows "\<exists>h1 derived. modify_obj h self props src = Some (Inr (h1, derived))
    \<and> load h1 derived = Some (base \<lparr> editor := ensure_instances (editor base),
                                      source := from_source src (source base) \<rparr>)
    \<and> (has_instances (editor base) \<longrightarrow> ensure_instances (editor base) = editor base)
    \<and> load h1 self = Some base
    \<and> (\<forall>a \<in> {editor_at derived, editor_extra_at derived, vbsp_config_at derived,
               tags_at derived, desc_at derived, icons_at derived}.
          \<forall>x. load (h1[a := x]) self = Some base)
    \<and> authors_at derived = authors_at self"
proof -
  let ?v = "base \<lparr> editor := ensure_instances (editor base),
                   source := from_source src (source base) \<rparr>"
  let ?new = "[PropObj (vbsp_config base), DescObj (desc base), StrListObj (tags base),
               PropObj (ensure_instances (editor base)), ExtraObj (editor_extra base),
               IconsObj (icons base)]"
  let ?d = "\<lparr> editor_at = length h + 3, editor_extra_at = length h + 4,
              vbsp_config_at = length h, authors_at = authors_at self,
              tags_at = length h + 2, desc_at = length h + 1, icons_at = length h + 5,
              source_of = from_source src (source base), ent_count_of = ent_count base,
              url_of = url base, all_name_of = all_name base, all_icon_of = all_icon base \<rparr>"
  from assms(2) have na: "\<not> contains ''authors'' props" by (simp add: empty_delta_def)
  have run: "modify_obj h self props src = Some (Inr (h @ ?new, ?d))"
    using assms(1) na by (simp add: modify_obj_def modify_empty_value[OF assms(2)] Let_def)
  from load_bounds[OF assms(1)] have au: "authors_at self < length h"
    by (simp add: addresses_def)
  from assms(1) have aus: "strs_at h (authors_at self) = Some (authors base)"
    by (auto simp: load_def split: option.splits)
  from au aus have aus': "strs_at (h @ ?new) (authors_at self) = Some (authors base)"
    by (simp add: strs_at_def nth_append)
  have ld: "load (h @ ?new) ?d = Some ?v"
  proof -
    have 1: "prop_at (h @ ?new) (editor_at ?d) = Some (ensure_instances (editor base))"
      and 2: "extra_at (h @ ?new) (editor_extra_at ?d) = Some (editor_extra base)"
      and 3: "prop_at (h @ ?new) (vbsp_config_at ?d) = Some (vbsp_config base)"
      and 4: "strs_at (h @ ?new) (authors_at ?d) = Some (authors base)"
      and 5: "strs_at (h @ ?new) (tags_at ?d) = Some (tags base)"
      and 6: "text_at (h @ ?new) (desc_at ?d) = Some (desc base)"
      and 7: "icons_in (h @ ?new) (icons_at ?d) = Some (icons base)"
      using aus' by (simp_all add: prop_at_def extra_at_def text_at_def icons_in_def
          strs_at_def nth_append)
    show ?thesis unfolding load_def 1 2 3 4 5 6 7 by simp
  qed
  have keep: "load (h @ ?new) self = Some base" by (rule load_append[OF assms(1)])
  have fresh: "load ((h @ ?new)[a := x]) self = Some base"
    if "a \<in> {editor_at ?d, editor_extra_at ?d, vbsp_config_at ?d, tags_at ?d, desc_at ?d, icons_at ?d}"
    for a x
  proof -
    from that have "length h \<le> a" by auto
    with load_bounds[OF assms(1)] have "a \<notin> addresses self" by auto
    from load_update_outside[OF keep this] show ?thesis .
  qed
  have inst: "has_instances (editor base) \<longrightarrow> ensure_instances (editor base) = editor base"
    using ensure_instances_present by blast
  have "modify_obj h self props src = Some (Inr (h @ ?new, ?d))
    \<and> load (h @ ?new) ?d = Some ?v
    \<and> (has_instances (editor base) \<longrightarrow> ensure_instances (editor base) = editor base)
    \<and> load (h @ ?new) self = Some base
    \<and> (\<forall>a \<in> {editor_at ?d, editor_extra_at ?d, vbsp_config_at ?d, tags_at ?d, desc_at ?d, icons_at ?d}.
          \<forall>x. load ((h @ ?new)[a := x]) self = Some base)
    \<and> authors_at ?d = authors_at self"
    using run ld keep fresh inst by simp
  then show ?thesis by blast
qed

theorem modify_empty_delta_witness:
  "load button_heap button_ref = Some button_variant
   \<and> empty_delta base_only_delta
   \<and> has_instances (editor button_variant)
   \<and> (\<exists>h1 derived. modify_obj button_heap button_ref base_only_delta ''<ITEM:VER.STYLE>''
                        = Some (Inr (h1, derived))
         \<and> load h1 derived
             = Some (button_variant \<lparr> source := ''<ITEM:VER.STYLE> from <PAK>/items/button'' \<rparr>)
         \<and> load (h1[editor_at derived := PropObj (Block None [])]) button_ref = Some button_variant
         \<and> load (h1[icons_at derived := IconsObj []]) button_ref = Some button_variant)"
proof -
  have l: "load button_heap button_ref = Some button_variant" by code_simp
  have e: "empty_delta base_only_delta" by code_simp
  have i: "has_instances (editor button_variant)" by code_simp
  from modify_empty_delta[OF l e, of "''<ITEM:VER.STYLE>''"]
  obtain h1 derived where r:
    "modify_obj button_heap button_ref base_only_delta ''<ITEM:VER.STYLE>'' = Some (Inr (h1, derived))"
    "load h1 derived = Some (button_variant \<lparr> editor := ensure_instances (editor button_variant),
        source := from_source ''<ITEM:VER.STYLE>'' (source button_variant) \<rparr>)"
    "has_instances (editor button_variant) \<longrightarrow>
       ensure_instances (editor button_variant) = editor button_variant"
    "\<forall>a \<in> {editor_at derived, editor_extra_at derived, vbsp_config_at derived,
               tags_at derived, desc_at derived, icons_at derived}.
          \<forall>x. load (h1[a := x]) button_ref = Some button_variant"
    by (elim exE conjE)
  from r(3) i have same: "ensure_instances (editor button_variant) = editor button_variant"
    by (rule mp)
  have src: "from_source ''<ITEM:VER.STYLE>'' (source button_variant)
      = ''<ITEM:VER.STYLE> from <PAK>/items/button''" by code_simp
  from r(2) have ld: "load h1 derived
      = Some (button_variant \<lparr> source := ''<ITEM:VER.STYLE> from <PAK>/items/button'' \<rparr>)"
    unfolding same src by simp
  from r(4) have w1: "load (h1[editor_at derived := PropObj (Block None [])]) button_ref
      = Some button_variant" by simp
  from r(4) have w2: "load (h1[icons_at derived := IconsObj []]) button_ref = Some button_variant"
    by simp
  have "\<exists>h1 derived. modify_obj button_heap button_ref base_only_delta ''<ITEM:VER.STYLE>''
                        = Some (Inr (h1, derived))
         \<and> load h1 derived
             = Some (button_variant \<lparr> source := ''<ITEM:VER.STYLE> from <PAK>/items/button'' \<rparr>)
         \<and> load (h1[editor_at derived := PropObj (Block None [])]) button_ref = Some button_variant
         \<and> load (h1[icons_at derived := IconsObj []]) button_ref = Some button_variant"
    using r(1) ld w1 w2 by (intro exI[of _ h1] exI[of _ derived] conjI)
  with l e i show ?thesis by (intro conjI)
qed

text \<open>
  The claim as the spec words it fails in two places. On a base whose editor block has no
  \<^verbatim>\<open>Exporting\<close> block, the new variant's editor block has one, so it differs from the
  base's. And the authors list is shared: a write to the authors of the new variant is
  seen in the base.
\<close>

theorem modify_empty_delta_counterexample:
  "(case modify_obj bare_heap bare_ref (Block None []) ''<ITEM:VER.STYLE>'' of
      Some (Inr (h1, derived)) \<Rightarrow>
        map_option editor (load h1 bare_ref) = Some (Block (Some ''Item'') [])
        \<and> map_option editor (load h1 derived)
            = Some (Block (Some ''Item'') [Block (Some ''Exporting'') [Block (Some ''Instances'') []]])
        \<and> map_option authors (load h1 bare_ref) = Some [''Valve'']
        \<and> map_option authors (load (h1[authors_at derived := StrListObj [''Somebody else'']]) bare_ref)
            = Some [''Somebody else'']
    | _ \<Rightarrow> False)"
  by code_simp

theorem modify_invalid_index_witness:
  "Block (Some ''5'') [Leaf (Some ''icon'') ''palette/other.png'']
      \<in> set (find_children [''Palette''] bad_palette_delta)
   \<and> pname (Block (Some ''5'') [Leaf (Some ''icon'') ''palette/other.png'']) \<noteq> Some ''all''
   \<and> subtype_index (length (find_all [''Editor'', ''SubType''] (editor button_variant)))
        (pname (Block (Some ''5'') [Leaf (Some ''icon'') ''palette/other.png''])) = None
   \<and> \<not> isl (modify_init button_variant bad_palette_delta ''<ITEM:VER.STYLE>'')
   \<and> modify button_variant bad_palette_delta ''<ITEM:VER.STYLE>''
       = Inl (InvalidIndex ''5'' ''<ITEM:VER.STYLE>'')"
proof -
  let ?item = "Block (Some ''5'') [Leaf (Some ''icon'') ''palette/other.png'']"
  have a: "?item \<in> set (find_children [''Palette''] bad_palette_delta)" by code_simp
  have b: "pname ?item \<noteq> Some ''all''" by code_simp
  have c: "subtype_index (length (find_all [''Editor'', ''SubType''] (editor button_variant)))
        (pname ?item) = None" by code_simp
  have d: "\<not> isl (modify_init button_variant bad_palette_delta ''<ITEM:VER.STYLE>'')"
    by code_simp
  from modify_invalid_index[OF a b c, of "''<ITEM:VER.STYLE>''"]
  obtain e where e: "modify button_variant bad_palette_delta ''<ITEM:VER.STYLE>'' = Inl e"
    by (elim exE conjE)
  have "case modify button_variant bad_palette_delta ''<ITEM:VER.STYLE>'' of
          Inl e \<Rightarrow> e = InvalidIndex ''5'' ''<ITEM:VER.STYLE>'' | Inr v \<Rightarrow> True"
    by code_simp
  with e have f: "modify button_variant bad_palette_delta ''<ITEM:VER.STYLE>''
       = Inl (InvalidIndex ''5'' ''<ITEM:VER.STYLE>'')" by simp
  from a b c d f show ?thesis by (intro conjI)
qed

text \<open>
  Claim C8. The key of a \<^verbatim>\<open>Palette\<close> child goes through \<^verbatim>\<open>subtypes[int(item.name)]\<close>,
  and a Python list takes a negative index: \<^verbatim>\<open>-1\<close> names no subtype (they are numbered
  from \<open>0\<close>), yet \<^verbatim>\<open>modify\<close> raises nothing for it and patches the last subtype. On
  the variant with the subtypes \<open>Cube\<close> and \<open>Sphere\<close>, the delta with the key \<^verbatim>\<open>-1\<close>
  returns a variant whose \<open>Sphere\<close> palette has the new tooltip and image.
\<close>

theorem negative_index_patches_last_subtype:
  "py_int ''-1'' = Some (- 1)
   \<and> length (find_all [''Editor'', ''SubType''] (editor cube_variant)) = 2
   \<and> subtype_index 2 (Some ''-1'') = Some 1
   \<and> (case modify cube_variant negative_palette_delta ''<ITEM_CUBE:VER_DEFAULT.BEE2_CLEAN>'' of
         Inl e \<Rightarrow> None
       | Inr variant \<Rightarrow> Some (find_all [''Editor'', ''SubType''] (editor variant)))
     = Some [cube_subtype,
             Block (Some ''SubType'')
               [Leaf (Some ''Name'') ''Sphere'',
                Block (Some ''Palette'') [Leaf (Some ''Tooltip'') ''NEW'',
                                          Leaf (Some ''Image'') ''palette/new.png'']]]"
  by code_simp

section \<open>The item completion engine\<close>

lemma map_of_present: "map_of sm k \<noteq> None \<longleftrightarrow> k \<in> set (map fst sm)"
  by (simp add: map_of_eq_None_iff)

text \<open>The first loop appends a slot for every known style that has none.\<close>

lemma fill_style_keys:
  assumes "fill_style is_def d def_styles sm (k, bs) = Inr sm1"
  shows "map fst sm1 = (if k \<in> set (map fst sm) then map fst sm else map fst sm @ [k])"
  using assms
  by (auto simp: fill_style_def update_keys map_of_eq_None_iff
      split: if_splits option.splits sum.splits)

lemma fill_styles_keys:
  assumes "fill_styles is_def d def_styles sm entries = Inr sm1"
    and "distinct (map fst entries)"
  shows "map fst sm1 = map fst sm @ filter (\<lambda>k. k \<notin> set (map fst sm)) (map fst entries)"
  using assms
proof (induction entries arbitrary: sm)
  case Nil
  then show ?case by simp
next
  case (Cons entry entries)
  obtain k bs where e: "entry = (k, bs)" by (cases entry)
  from Cons.prems(1) e obtain sm0 where
    step: "fill_style is_def d def_styles sm (k, bs) = Inr sm0"
    and rest: "fill_styles is_def d def_styles sm0 entries = Inr sm1"
    by (auto split: sum.splits)
  from Cons.prems(2) e have d: "distinct (map fst entries)" and nk: "k \<notin> set (map fst entries)"
    by auto
  note ih = Cons.IH[OF rest d]
  show ?case
  proof (cases "k \<in> set (map fst sm)")
    case True
    with fill_style_keys[OF step] ih e show ?thesis by simp
  next
    case False
    with fill_style_keys[OF step] have k0: "map fst sm0 = map fst sm @ [k]" by simp
    have "filter (\<lambda>x. x \<notin> set (map fst sm0)) (map fst entries)
        = filter (\<lambda>x. x \<notin> set (map fst sm)) (map fst entries)"
      using nk by (intro filter_cong) (auto simp: k0)
    with ih k0 False e show ?thesis by simp
  qed
qed

text \<open>
  A slot the first loop adds holds the value of a slot that was there, or (in a version
  other than the default one) of a slot of the default version; the slots that were
  there stay.
\<close>

lemma fill_style_values:
  assumes "fill_style is_def d def_styles sm (k, bs) = Inr sm1"
  shows "(\<forall>k'. map_of sm k' \<noteq> None \<longrightarrow> map_of sm1 k' = map_of sm k')
    \<and> (\<forall>k' sl. map_of sm1 k' = Some sl \<longrightarrow>
          (\<exists>j. map_of sm j = Some sl) \<or> (\<not> is_def \<and> (\<exists>j. map_of def_styles j = Some sl)))"
proof -
  have fd: "first_defined sm bs = Some v \<Longrightarrow> \<exists>j. map_of sm j = Some v" for v
    by (induction bs) (auto split: option.splits)
  show ?thesis
  proof (cases "map_of sm k")
    case (Some a)
    with assms have "sm1 = sm" by (simp add: fill_style_def)
    then show ?thesis by auto
  next
    case None
    with assms obtain v where s1: "sm1 = AList.update k v sm"
      and v: "(\<exists>j. map_of sm j = Some v) \<or> (\<not> is_def \<and> (\<exists>j. map_of def_styles j = Some v))"
      using fd
      by (auto simp: fill_style_def def_style_slot_def
          split: if_splits option.splits sum.splits def_style.splits)
    have m: "map_of sm1 k' = (if k' = k then Some v else map_of sm k')" for k'
      by (simp add: s1 update_conv')
    show ?thesis
      using None v by (auto simp: m)
  qed
qed

lemma lookup_ok_mono:
  assumes "lookup_ok sm sl" and "\<forall>k'. map_of sm k' \<noteq> None \<longrightarrow> map_of sm1 k' = map_of sm k'"
  shows "lookup_ok sm1 sl"
proof (cases "alias_target sl")
  case None
  then show ?thesis by (simp add: lookup_ok_def)
next
  case (Some t)
  with assms(1) obtain f s' where t: "t = VStr f" "map_of sm f = Some s'" "alias_target s' = None"
    by (auto simp: lookup_ok_def split: pyval.splits option.splits)
  from assms(2) t(2) have "map_of sm1 f = Some s'" by simp
  with Some t show ?thesis by (simp add: lookup_ok_def)
qed

lemma fill_style_settled:
  assumes "fill_style is_def d def_styles sm (k, bs) = Inr sm1"
    and "settled sm" and "is_def \<or> no_lookups def_styles"
  shows "settled sm1"
proof -
  note v = fill_style_values[OF assms(1)]
  from v have keep: "\<forall>k'. map_of sm k' \<noteq> None \<longrightarrow> map_of sm1 k' = map_of sm k'" by blast
  show ?thesis
    unfolding settled_def
  proof (intro allI impI)
    fix k' sl
    assume h: "map_of sm1 k' = Some sl"
    with v have "(\<exists>j. map_of sm j = Some sl) \<or> (\<not> is_def \<and> (\<exists>j. map_of def_styles j = Some sl))"
      by blast
    then consider (old) j where "map_of sm j = Some sl"
      | (dflt) j where "\<not> is_def" "map_of def_styles j = Some sl" by blast
    then show "lookup_ok sm1 sl"
    proof cases
      case old
      with assms(2) have "lookup_ok sm sl" by (auto simp: settled_def)
      from lookup_ok_mono[OF this keep] show ?thesis .
    next
      case dflt
      with assms(3) have "alias_target sl = None" by (auto simp: no_lookups_def)
      then show ?thesis by (simp add: lookup_ok_def)
    qed
  qed
qed

lemma fill_styles_settled:
  assumes "fill_styles is_def d def_styles sm entries = Inr sm1"
    and "settled sm" and "is_def \<or> no_lookups def_styles"
  shows "settled sm1"
  using assms
proof (induction entries arbitrary: sm)
  case Nil
  then show ?case by simp
next
  case (Cons entry entries)
  obtain k bs where e: "entry = (k, bs)" by (cases entry)
  from Cons.prems(1) e obtain sm0 where
    step: "fill_style is_def d def_styles sm (k, bs) = Inr sm0"
    and rest: "fill_styles is_def d def_styles sm0 entries = Inr sm1"
    by (auto split: sum.splits)
  from fill_style_settled[OF step Cons.prems(2,3)] Cons.IH[OF rest _ Cons.prems(3)]
  show ?case by blast
qed

text \<open>
  The second loop writes to the slot it is visiting only, and only a variant; a style
  lookup is noted and its slot left alone.
\<close>

lemma variant_no_target: "is_variant sl \<Longrightarrow> alias_target sl = None"
  by (cases sl) (simp_all add: is_variant_def alias_target_def)

lemma eval_mod_step:
  assumes "eval_mod it vid (sm, lk) k = Inr (sm0, lk0)"
  shows "map fst sm0 = map fst sm
    \<and> (\<forall>j. j \<noteq> k \<longrightarrow> map_of sm0 j = map_of sm j)
    \<and> (map_of sm k = None \<longrightarrow> sm0 = sm \<and> lk0 = lk)
    \<and> (\<forall>sl t. map_of sm k = Some sl \<and> alias_target sl = Some t
          \<longrightarrow> sm0 = sm \<and> map_of lk0 = (map_of lk)(k \<mapsto> t))
    \<and> (\<forall>sl. map_of sm k = Some sl \<and> alias_target sl = None
          \<longrightarrow> lk0 = lk \<and> (\<exists>v. map_of sm0 k = Some (Variant v)))"
proof (cases "map_of sm k")
  case None
  with assms show ?thesis by (simp add: eval_mod_def)
next
  case (Some sl)
  then have present: "k \<in> set (map fst sm)" using map_of_present[of sm k] by simp
  show ?thesis
  proof (cases sl)
    case (Variant v)
    with Some assms show ?thesis by (simp add: eval_mod_def alias_target_def)
  next
    case (PropSlot p)
    show ?thesis
    proof (cases "pname p = None")
      case True
      with Some PropSlot assms have "sm0 = sm" "lk0 = AList.update k (pvalue p) lk"
        by (simp_all add: eval_mod_def)
      with Some PropSlot True show ?thesis by (simp add: alias_target_def update_conv')
    next
      case False
      with Some PropSlot assms obtain v where "sm0 = AList.update k (Variant v) sm" "lk0 = lk"
        by (auto simp: eval_mod_def split: option.splits pyval.splits if_splits slot.splits sum.splits)
      with Some PropSlot False present show ?thesis
        by (auto simp: alias_target_def update_conv' update_keys)
    qed
  qed
qed

lemma eval_mods_inv:
  assumes "eval_mods it vid (sm, lk) ids = Inr (sm', lk')"
  shows "map fst sm' = map fst sm
    \<and> (\<forall>j sl t. map_of sm j = Some sl \<and> alias_target sl = Some t
          \<longrightarrow> map_of sm' j = Some sl \<and> (j \<in> set ids \<longrightarrow> map_of lk' j = Some t))
    \<and> (\<forall>j sl. map_of sm j = Some sl \<and> alias_target sl = None \<and> (j \<in> set ids \<or> is_variant sl)
          \<longrightarrow> (\<exists>v. map_of sm' j = Some (Variant v)))
    \<and> (\<forall>j. map_of lk' j = map_of lk j
          \<or> (\<exists>sl t. map_of sm j = Some sl \<and> alias_target sl = Some t \<and> map_of lk' j = Some t))"
  using assms
proof (induction ids arbitrary: sm lk)
  case Nil
  then show ?case by (auto simp: is_variant_def split: slot.splits)
next
  case (Cons k ids)
  from Cons.prems obtain sm0 lk0 where
    step: "eval_mod it vid (sm, lk) k = Inr (sm0, lk0)"
    and rest: "eval_mods it vid (sm0, lk0) ids = Inr (sm', lk')"
    by (auto split: sum.splits)
  note s = eval_mod_step[OF step]
  note ih = Cons.IH[OF rest]
  from s have s1: "map fst sm0 = map fst sm" by blast
  from s have sx: "\<And>j. j \<noteq> k \<Longrightarrow> map_of sm0 j = map_of sm j" by blast
  from s have sa: "\<And>sl t. map_of sm k = Some sl \<Longrightarrow> alias_target sl = Some t
      \<Longrightarrow> sm0 = sm \<and> map_of lk0 = (map_of lk)(k \<mapsto> t)" by blast
  from s have sn: "\<And>sl. map_of sm k = Some sl \<Longrightarrow> alias_target sl = None
      \<Longrightarrow> lk0 = lk \<and> (\<exists>v. map_of sm0 k = Some (Variant v))" by blast
  from s have s0: "map_of sm k = None \<Longrightarrow> sm0 = sm \<and> lk0 = lk" by blast
  from ih have i1: "map fst sm' = map fst sm0" by blast
  from ih have ia: "\<And>j sl t. map_of sm0 j = Some sl \<Longrightarrow> alias_target sl = Some t
      \<Longrightarrow> map_of sm' j = Some sl \<and> (j \<in> set ids \<longrightarrow> map_of lk' j = Some t)" by blast
  from ih have iv: "\<And>j sl. map_of sm0 j = Some sl \<Longrightarrow> alias_target sl = None
      \<Longrightarrow> j \<in> set ids \<or> is_variant sl \<Longrightarrow> \<exists>v. map_of sm' j = Some (Variant v)" by blast
  from ih have il: "\<And>j. map_of lk' j = map_of lk0 j
          \<or> (\<exists>sl t. map_of sm0 j = Some sl \<and> alias_target sl = Some t \<and> map_of lk' j = Some t)"
    by blast
  have keep_alias: "map_of sm0 j = Some sl"
    if "map_of sm j = Some sl" "alias_target sl = Some t" for j sl t
  proof (cases "j = k")
    case True
    with that sa show ?thesis by auto
  next
    case False
    with that sx show ?thesis by simp
  qed
  have back_alias: "map_of sm j = Some sl"
    if "map_of sm0 j = Some sl" "alias_target sl = Some t" for j sl t
  proof (cases "j = k")
    case False
    with that sx show ?thesis by simp
  next
    case True
    show ?thesis
    proof (cases "map_of sm k")
      case None
      with s0 that True show ?thesis by simp
    next
      case (Some sl0)
      show ?thesis
      proof (cases "alias_target sl0")
        case None
        with sn[OF Some] that True show ?thesis by (auto simp: alias_target_def)
      next
        case (Some t0)
        with sa[OF \<open>map_of sm k = Some sl0\<close>] that True show ?thesis by simp
      qed
    qed
  qed
  have c1: "map fst sm' = map fst sm" using i1 s1 by simp
  have c2: "map_of sm' j = Some sl \<and> (j \<in> set (k # ids) \<longrightarrow> map_of lk' j = Some t)"
    if h: "map_of sm j = Some sl" "alias_target sl = Some t" for j sl t
  proof -
    note k0 = keep_alias[OF h]
    note a = ia[OF k0 h(2)]
    have "map_of lk' k = Some t" if "j = k"
    proof -
      from sa[of sl t] h that have "map_of lk0 k = Some t" by simp
      with il[of k] k0 h(2) that show ?thesis by auto
    qed
    with a show ?thesis by auto
  qed
  have c3: "\<exists>v. map_of sm' j = Some (Variant v)"
    if h: "map_of sm j = Some sl" "alias_target sl = None" "j \<in> set (k # ids) \<or> is_variant sl"
    for j sl
  proof (cases "j = k")
    case True
    with sn[of sl] h obtain v where "map_of sm0 j = Some (Variant v)" by auto
    from iv[OF this] show ?thesis by (simp add: alias_target_def is_variant_def)
  next
    case False
    with sx h have "map_of sm0 j = Some sl" by simp
    from iv[OF this h(2)] h(3) False show ?thesis by simp
  qed
  have c4: "map_of lk' j = map_of lk j
          \<or> (\<exists>sl t. map_of sm j = Some sl \<and> alias_target sl = Some t \<and> map_of lk' j = Some t)"
    for j
  proof -
    from il[of j] consider (same) "map_of lk' j = map_of lk0 j"
      | (set) sl t where "map_of sm0 j = Some sl" "alias_target sl = Some t" "map_of lk' j = Some t"
      by blast
    then show ?thesis
    proof cases
      case set
      from back_alias[OF set(1,2)] set show ?thesis by blast
    next
      case same
      show ?thesis
      proof (cases "map_of sm k")
        case None
        with s0 same show ?thesis by simp
      next
        case (Some sl0)
        show ?thesis
        proof (cases "alias_target sl0")
          case None
          with sn[OF Some] same show ?thesis by simp
        next
          case (Some t0)
          with sa[OF \<open>map_of sm k = Some sl0\<close>] have "map_of lk0 = (map_of lk)(k \<mapsto> t0)" by simp
          with same Some \<open>map_of sm k = Some sl0\<close> show ?thesis by (cases "j = k") auto
        qed
      qed
    qed
  qed
  from c1 c2 c3 c4 show ?case by blast
qed

text \<open>The third loop copies slots of the dict onto the slots of the style lookups.\<close>

lemma eval_lookup_step:
  assumes "eval_lookup it sm (to_id, t) = Inr sm0"
  shows "\<exists>from_id v. t = VStr from_id \<and> map_of sm from_id = Some v \<and> sm0 = AList.update to_id v sm"
  using assms by (auto simp: eval_lookup_def split: pyval.splits option.splits)

lemma eval_lookups_keys:
  assumes "eval_lookups it sm es = Inr sm'"
    and "\<forall>e \<in> set es. map_of sm (fst e) \<noteq> None"
  shows "map fst sm' = map fst sm"
  using assms
proof (induction es arbitrary: sm)
  case Nil
  then show ?case by simp
next
  case (Cons e es)
  obtain to_id t where e: "e = (to_id, t)" by (cases e)
  from Cons.prems(1) e obtain sm0 where
    step: "eval_lookup it sm (to_id, t) = Inr sm0"
    and rest: "eval_lookups it sm0 es = Inr sm'"
    by (auto split: sum.splits)
  from eval_lookup_step[OF step] obtain v where s0: "sm0 = AList.update to_id v sm" by blast
  from Cons.prems(2) e have "to_id \<in> set (map fst sm)" using map_of_present[of sm to_id] by simp
  with s0 have k: "map fst sm0 = map fst sm" by (simp add: update_keys)
  have "\<forall>e \<in> set es. map_of sm0 (fst e) \<noteq> None"
    using Cons.prems(2) by (auto simp: s0 update_conv')
  from Cons.IH[OF rest this] k show ?case by simp
qed

lemma eval_lookups_values:
  assumes "eval_lookups it sm es = Inr sm'"
    and "\<forall>j sl. map_of sm j = Some sl \<longrightarrow> P sl"
  shows "\<forall>j sl. map_of sm' j = Some sl \<longrightarrow> P sl"
  using assms
proof (induction es arbitrary: sm)
  case Nil
  then show ?case by simp
next
  case (Cons e es)
  obtain to_id t where e: "e = (to_id, t)" by (cases e)
  from Cons.prems(1) e obtain sm0 where
    step: "eval_lookup it sm (to_id, t) = Inr sm0"
    and rest: "eval_lookups it sm0 es = Inr sm'"
    by (auto split: sum.splits)
  from eval_lookup_step[OF step] obtain f v where
    s0: "sm0 = AList.update to_id v sm" and v: "map_of sm f = Some v" by blast
  have "\<forall>j sl. map_of sm0 j = Some sl \<longrightarrow> P sl"
    using Cons.prems(2) v by (auto simp: s0 update_conv')
  from Cons.IH[OF rest this] show ?case .
qed

lemma eval_lookups_variants:
  assumes "eval_lookups it sm es = Inr sm'"
    and "\<forall>j sl. map_of sm j = Some sl \<and> \<not> is_variant sl \<longrightarrow> j \<in> fst ` set es"
    and "\<forall>e \<in> set es. \<exists>f v. snd e = VStr f \<and> map_of sm f = Some (Variant v)"
  shows "\<forall>j sl. map_of sm' j = Some sl \<longrightarrow> is_variant sl"
  using assms
proof (induction es arbitrary: sm)
  case Nil
  then show ?case by auto
next
  case (Cons e es)
  obtain to_id t where e: "e = (to_id, t)" by (cases e)
  from Cons.prems(1) e obtain sm0 where
    step: "eval_lookup it sm (to_id, t) = Inr sm0"
    and rest: "eval_lookups it sm0 es = Inr sm'"
    by (auto split: sum.splits)
  from eval_lookup_step[OF step] obtain f v where
    t: "t = VStr f" and s0: "sm0 = AList.update to_id v sm" and v: "map_of sm f = Some v" by blast
  from Cons.prems(3) e t v obtain w where w: "v = Variant w" by auto
  have m: "map_of sm0 j = (if j = to_id then Some (Variant w) else map_of sm j)" for j
    by (simp add: s0 w update_conv')
  have a: "\<forall>j sl. map_of sm0 j = Some sl \<and> \<not> is_variant sl \<longrightarrow> j \<in> fst ` set es"
  proof (intro allI impI)
    fix j sl
    assume h: "map_of sm0 j = Some sl \<and> \<not> is_variant sl"
    then have ne: "j \<noteq> to_id" by (auto simp: m is_variant_def)
    with h have "map_of sm j = Some sl \<and> \<not> is_variant sl" by (simp add: m)
    with Cons.prems(2) have "j \<in> fst ` set (e # es)" by blast
    with ne e show "j \<in> fst ` set es" by auto
  qed
  have b: "\<forall>e \<in> set es. \<exists>f v. snd e = VStr f \<and> map_of sm0 f = Some (Variant v)"
  proof
    fix e'
    assume "e' \<in> set es"
    with Cons.prems(3) obtain f' v' where "snd e' = VStr f'" "map_of sm f' = Some (Variant v')"
      by auto
    then show "\<exists>f v. snd e' = VStr f \<and> map_of sm0 f = Some (Variant v)"
      by (cases "f' = to_id") (auto simp: m)
  qed
  from Cons.IH[OF rest a b] show ?case .
qed

lemma eval_mods_distinct:
  assumes "eval_mods it vid (sm, lk) ids = Inr (sm', lk')" and "distinct (map fst lk)"
  shows "distinct (map fst lk')"
  using assms
proof (induction ids arbitrary: sm lk)
  case Nil
  then show ?case by simp
next
  case (Cons k ids)
  from Cons.prems(1) obtain sm0 lk0 where
    step: "eval_mod it vid (sm, lk) k = Inr (sm0, lk0)"
    and rest: "eval_mods it vid (sm0, lk0) ids = Inr (sm', lk')"
    by (auto split: sum.splits)
  from step have "lk0 = lk \<or> (\<exists>t. lk0 = AList.update k t lk)"
    by (auto simp: eval_mod_def split: option.splits pyval.splits if_splits slot.splits sum.splits)
  with Cons.prems(2) have "distinct (map fst lk0)" by (auto simp: distinct_update)
  from Cons.IH[OF rest this] show ?case .
qed

text \<open>What the three loops do to one version.\<close>

lemma settled_direct:
  assumes "distinct (map fst sm)"
  shows "settled sm \<longleftrightarrow> direct_lookups sm"
proof -
  have "map_of sm k = Some sl \<longleftrightarrow> (k, sl) \<in> set sm" for k sl
    using assms by simp
  then show ?thesis
    by (auto simp: settled_def direct_lookups_def list_all_iff)
qed

lemma entries_map_of:
  assumes "distinct (map fst sm)" and "\<forall>j sl. map_of sm j = Some sl \<longrightarrow> P sl"
  shows "\<forall>entry \<in> set sm. P (snd entry)"
proof
  fix entry
  assume "entry \<in> set sm"
  then have "(fst entry, snd entry) \<in> set sm" by simp
  with assms(1) have "map_of sm (fst entry) = Some (snd entry)" by simp
  with assms(2) show "P (snd entry)" by blast
qed

lemma complete_version_inv:
  assumes run: "complete_version bases_of it def_id def_styles vers = Inr vers1"
    and db: "distinct (map fst bases_of)"
  shows "ver_id vers1 = ver_id vers
    \<and> map fst (styles vers1)
        = map fst (styles vers) @ filter (\<lambda>s. s \<notin> set (map fst (styles vers))) (map fst bases_of)
    \<and> (\<forall>j sl. map_of (styles vers1) j = Some sl \<longrightarrow> is_variant sl \<or> alias_target sl \<noteq> None)
    \<and> (settled (styles vers) \<and> (ver_id vers = def_id \<or> no_lookups def_styles)
          \<longrightarrow> (\<forall>j sl. map_of (styles vers1) j = Some sl \<longrightarrow> is_variant sl))"
proof -
  from run obtain sm1 sm2 lk sm3 where
    fill: "fill_styles (ver_id vers = def_id) (def_style vers) def_styles (styles vers) bases_of = Inr sm1"
    and mods: "eval_mods it (ver_id vers) (sm1, []) (map fst sm1) = Inr (sm2, lk)"
    and looks: "eval_lookups it sm2 lk = Inr sm3"
    and s: "styles vers1 = sm3" and i: "ver_id vers1 = ver_id vers"
    by (auto simp: complete_version_def split: sum.splits prod.splits)
  note k1 = fill_styles_keys[OF fill db]
  note inv = eval_mods_inv[OF mods]
  from inv have k2: "map fst sm2 = map fst sm1" by blast
  from inv have ia: "\<And>j sl t. map_of sm1 j = Some sl \<Longrightarrow> alias_target sl = Some t
      \<Longrightarrow> map_of sm2 j = Some sl \<and> (j \<in> set (map fst sm1) \<longrightarrow> map_of lk j = Some t)" by blast
  from inv have iv: "\<And>j sl. map_of sm1 j = Some sl \<Longrightarrow> alias_target sl = None
      \<Longrightarrow> j \<in> set (map fst sm1) \<or> is_variant sl \<Longrightarrow> \<exists>v. map_of sm2 j = Some (Variant v)" by blast
  from inv have il: "\<And>j. map_of lk j = map_of [] j
          \<or> (\<exists>sl t. map_of sm1 j = Some sl \<and> alias_target sl = Some t \<and> map_of lk j = Some t)"
    by blast
  have kinds2: "is_variant sl \<or> (alias_target sl \<noteq> None \<and> map_of sm1 j = Some sl \<and> map_of lk j \<noteq> None)"
    if h: "map_of sm2 j = Some sl" for j sl
  proof -
    from h have "j \<in> set (map fst sm2)" using map_of_present[of sm2 j] by simp
    with k2 have j1: "j \<in> set (map fst sm1)" by simp
    then obtain sl1 where s1: "map_of sm1 j = Some sl1" using map_of_present[of sm1 j] by auto
    show ?thesis
    proof (cases "alias_target sl1")
      case None
      from iv[OF s1 None] j1 h show ?thesis by (auto simp: is_variant_def)
    next
      case (Some t)
      from ia[OF s1 Some] j1 h s1 Some show ?thesis by auto
    qed
  qed
  have lk_keys: "\<forall>e \<in> set lk. map_of sm2 (fst e) \<noteq> None"
  proof
    fix e
    assume "e \<in> set lk"
    then have "map_of lk (fst e) \<noteq> None"
      using map_of_present[of lk "fst e"] by simp
    with il[of "fst e"] obtain sl t where "map_of sm1 (fst e) = Some sl" "alias_target sl = Some t"
      by auto
    from ia[OF this] show "map_of sm2 (fst e) \<noteq> None" by simp
  qed
  have k3: "map fst sm3 = map fst sm2" by (rule eval_lookups_keys[OF looks lk_keys])
  have kinds3: "\<forall>j sl. map_of sm3 j = Some sl \<longrightarrow> is_variant sl \<or> alias_target sl \<noteq> None"
    by (rule eval_lookups_values[OF looks]) (use kinds2 in blast)
  have all3: "\<forall>j sl. map_of sm3 j = Some sl \<longrightarrow> is_variant sl"
    if st: "settled (styles vers)" and d: "ver_id vers = def_id \<or> no_lookups def_styles"
  proof (rule eval_lookups_variants[OF looks])
    show "\<forall>j sl. map_of sm2 j = Some sl \<and> \<not> is_variant sl \<longrightarrow> j \<in> fst ` set lk"
    proof (intro allI impI)
      fix j sl
      assume "map_of sm2 j = Some sl \<and> \<not> is_variant sl"
      with kinds2[of j sl] have "map_of lk j \<noteq> None" by blast
      then show "j \<in> fst ` set lk" using map_of_present[of lk j] by simp
    qed
  next
    note st1 = fill_styles_settled[OF fill st d]
    show "\<forall>e \<in> set lk. \<exists>f v. snd e = VStr f \<and> map_of sm2 f = Some (Variant v)"
    proof
      fix e
      assume e: "e \<in> set lk"
      have dl: "distinct (map fst lk)" using eval_mods_distinct[OF mods] by simp
      from e have "(fst e, snd e) \<in> set lk" by simp
      with dl have le: "map_of lk (fst e) = Some (snd e)" by simp
      with il[of "fst e"] obtain sl where sl: "map_of sm1 (fst e) = Some sl"
        "alias_target sl = Some (snd e)" by auto
      from st1 sl(1) have "lookup_ok sm1 sl" by (auto simp: settled_def)
      with sl(2) obtain f s' where f: "snd e = VStr f" "map_of sm1 f = Some s'" "alias_target s' = None"
        by (auto simp: lookup_ok_def split: pyval.splits option.splits)
      from f(2) have "f \<in> set (map fst sm1)" using map_of_present[of sm1 f] by simp
      from iv[OF f(2,3)] this f(1) show "\<exists>f v. snd e = VStr f \<and> map_of sm2 f = Some (Variant v)"
        by blast
    qed
  qed
  from i k1 k2 k3 s kinds3 all3 show ?thesis by simp
qed

text \<open>The dict of the styles has every style id once, and the resolver keeps its keys.\<close>

lemma build_all_styles_keys:
  "distinct (map fst (build_all_styles style_data))
   \<and> set (map fst (build_all_styles style_data)) = set (map style_id style_data)"
proof -
  have "distinct (map fst acc) \<Longrightarrow>
        distinct (map fst (foldl (\<lambda>d s. AList.update (style_id s) s d) acc style_data))
        \<and> set (map fst (foldl (\<lambda>d s. AList.update (style_id s) s d) acc style_data))
            = set (map fst acc) \<union> set (map style_id style_data)"
    for acc :: style_dict
  proof (induction style_data arbitrary: acc)
    case Nil
    then show ?case by simp
  next
    case (Cons s style_data)
    have d: "distinct (map fst (AList.update (style_id s) s acc))"
      using Cons.prems by (rule distinct_update)
    have k: "set (map fst (AList.update (style_id s) s acc)) = insert (style_id s) (set (map fst acc))"
      by (auto simp: update_keys)
    from Cons.IH[OF d] k show ?case by auto
  qed
  from this[of "[]"] show ?thesis by (simp add: build_all_styles_def)
qed

lemma resolve_bases_keys:
  assumes "resolve_bases all_styles = Inr bases_of"
  shows "map fst bases_of = map fst all_styles"
proof -
  have "set_bases all_styles todo = Inr b \<Longrightarrow> map fst b = map fst todo" for todo b
    by (induction todo arbitrary: b) (auto split: sum.splits simp del: find_bases.simps)
  with assms show ?thesis by (simp add: resolve_bases_def)
qed

lemma completed_keys_length:
  assumes "distinct ks" and "distinct ns" and "set ks \<subseteq> set ns"
  shows "length (ks @ filter (\<lambda>s. s \<notin> set ks) ns) = length ns"
proof -
  have "distinct (filter (\<lambda>s. s \<notin> set ks) ns)" using assms(2) by simp
  then have "length (filter (\<lambda>s. s \<notin> set ks) ns) = card (set ns - set ks)"
    by (metis distinct_card set_diff_eq set_filter)
  also have "\<dots> = card (set ns) - card (set ks)"
    using assms(3) by (simp add: card_Diff_subset)
  also have "\<dots> = length ns - length ks"
    using assms(1,2) by (simp add: distinct_card)
  finally have f: "length (filter (\<lambda>s. s \<notin> set ks) ns) = length ns - length ks" .
  have "card (set ks) \<le> card (set ns)" using assms(3) by (simp add: card_mono)
  then have "length ks \<le> length ns" using assms(1,2) by (simp add: distinct_card)
  with f show ?thesis by simp
qed

lemma completed_keys_distinct:
  assumes "distinct (map fst sm)" and "distinct ns"
  shows "distinct (map fst sm @ filter (\<lambda>s. s \<notin> set (map fst sm)) ns)"
  using assms by auto

text \<open>The versions of an item: the default one first, the others with it to fall back on.\<close>

lemma complete_others_shape:
  assumes "complete_others bases_of it dv1 dkey vs = Inr vs1"
  shows "list_all2 (\<lambda>e e1. fst e1 = fst e
           \<and> (if fst e = dkey then snd e1 = dv1
              else complete_version bases_of it (ver_id dv1) (styles dv1) (snd e) = Inr (snd e1)))
         vs vs1"
  using assms
proof (induction vs arbitrary: vs1)
  case Nil
  then show ?case by simp
next
  case (Cons e vs)
  obtain k vers where e: "e = (k, vers)" by (cases e)
  show ?case
  proof (cases "k = dkey")
    case True
    with Cons.prems e obtain r where
      r: "complete_others bases_of it dv1 dkey vs = Inr r" "vs1 = (k, dv1) # r"
      by (auto split: sum.splits)
    from Cons.IH[OF r(1)] r(2) e True show ?thesis by simp
  next
    case False
    with Cons.prems e obtain x r where
      x: "complete_version bases_of it (ver_id dv1) (styles dv1) vers = Inr x"
      and r: "complete_others bases_of it dv1 dkey vs = Inr r" "vs1 = (k, x) # r"
      by (auto split: sum.splits)
    from Cons.IH[OF r(1)] r(2) x e False show ?thesis by simp
  qed
qed

lemma setup_items_shape:
  assumes "setup_items bases_of its = Inr its1"
  shows "list_all2 (\<lambda>it it1. setup_item bases_of it = Inr it1) its its1"
  using assms
  by (induction its arbitrary: its1) (auto split: sum.splits)

lemma list_all2_right: "list_all2 (\<lambda>x y. Q y) xs ys \<Longrightarrow> list_all Q ys"
  by (induction xs ys rule: list_all2_induct) simp_all

lemma list_all2_sum:
  "list_all2 (\<lambda>x y. f y = (n::nat)) xs ys \<Longrightarrow> sum_list (map f ys) = n * length xs"
  by (induction xs ys rule: list_all2_induct) simp_all

lemma setup_item_inv:
  assumes run: "setup_item bases_of it = Inr it1"
    and db: "distinct (map fst bases_of)"
    and dict: "dict_item it"
  shows "list_all2 (\<lambda>e e1. fst e1 = fst e
          \<and> map fst (styles (snd e1))
              = map fst (styles (snd e)) @ filter (\<lambda>s. s \<notin> set (map fst (styles (snd e)))) (map fst bases_of)
          \<and> list_all (\<lambda>entry. is_variant (snd entry) \<or> alias_target (snd entry) \<noteq> None) (styles (snd e1))
          \<and> (direct_item it \<longrightarrow> list_all (\<lambda>entry. is_variant (snd entry)) (styles (snd e1))))
        (versions it) (versions it1)"
proof -
  from run obtain dv dv1 vs where
    dv: "map_of (versions it) (def_ver it) = Some dv"
    and c: "complete_version bases_of (item_id it) (ver_id dv) (styles dv) dv = Inr dv1"
    and o: "complete_others bases_of (item_id it) dv1 (def_ver it) (versions it) = Inr vs"
    and v1: "versions it1 = vs"
    by (auto simp: setup_item_def split: option.splits sum.splits)
  from dict have dvk: "distinct (map fst (versions it))"
    and dsk: "\<And>e. e \<in> set (versions it) \<Longrightarrow> distinct (map fst (styles (snd e)))"
    by (auto simp: dict_item_def list_all_iff)
  have dir: "settled (styles (snd e))" if "direct_item it" "e \<in> set (versions it)" for e
    using that dsk[OF that(2)] by (auto simp: direct_item_def list_all_iff settled_direct)
  from dv have dmem: "(def_ver it, dv) \<in> set (versions it)" by (rule map_of_SomeD)
  have good: "map fst (styles w1)
              = map fst (styles (snd e)) @ filter (\<lambda>s. s \<notin> set (map fst (styles (snd e)))) (map fst bases_of)
          \<and> list_all (\<lambda>entry. is_variant (snd entry) \<or> alias_target (snd entry) \<noteq> None) (styles w1)
          \<and> (direct_item it \<longrightarrow> list_all (\<lambda>entry. is_variant (snd entry)) (styles w1))"
    if e: "e \<in> set (versions it)"
      and w: "complete_version bases_of (item_id it) def_id def_styles (snd e) = Inr w1"
      and fb: "direct_item it \<Longrightarrow> ver_id (snd e) = def_id \<or> no_lookups def_styles"
    for e w1 def_id def_styles
  proof -
    note inv = complete_version_inv[OF w db]
    from inv have k: "map fst (styles w1)
        = map fst (styles (snd e)) @ filter (\<lambda>s. s \<notin> set (map fst (styles (snd e)))) (map fst bases_of)"
      by blast
    from k completed_keys_distinct[OF dsk[OF e] db] have d1: "distinct (map fst (styles w1))"
      by simp
    from inv have a: "\<forall>j sl. map_of (styles w1) j = Some sl \<longrightarrow> is_variant sl \<or> alias_target sl \<noteq> None"
      by blast
    from entries_map_of[OF d1 a]
    have a': "list_all (\<lambda>entry. is_variant (snd entry) \<or> alias_target (snd entry) \<noteq> None) (styles w1)"
      by (simp add: list_all_iff)
    have b': "list_all (\<lambda>entry. is_variant (snd entry)) (styles w1)" if di: "direct_item it"
    proof -
      from inv dir[OF di e] fb[OF di]
      have "\<forall>j sl. map_of (styles w1) j = Some sl \<longrightarrow> is_variant sl" by blast
      from entries_map_of[OF d1 this] show ?thesis by (simp add: list_all_iff)
    qed
    from k a' b' show ?thesis by blast
  qed
  have gd: "map fst (styles dv1)
              = map fst (styles dv) @ filter (\<lambda>s. s \<notin> set (map fst (styles dv))) (map fst bases_of)
          \<and> list_all (\<lambda>entry. is_variant (snd entry) \<or> alias_target (snd entry) \<noteq> None) (styles dv1)
          \<and> (direct_item it \<longrightarrow> list_all (\<lambda>entry. is_variant (snd entry)) (styles dv1))"
    using good[OF dmem, of "ver_id dv" "styles dv" dv1] c by simp
  have nl: "no_lookups (styles dv1)" if "direct_item it"
  proof -
    from gd that have "list_all (\<lambda>entry. is_variant (snd entry)) (styles dv1)" by blast
    then have "\<And>k sl. (k, sl) \<in> set (styles dv1) \<Longrightarrow> is_variant sl"
      by (auto simp: list_all_iff)
    then show ?thesis
      unfolding no_lookups_def by (meson map_of_SomeD variant_no_target)
  qed
  show ?thesis
    unfolding v1
  proof (rule list.rel_mono_strong[OF complete_others_shape[OF o]])
    fix e e1
    assume e: "e \<in> set (versions it)"
      and r: "fst e1 = fst e
           \<and> (if fst e = def_ver it then snd e1 = dv1
              else complete_version bases_of (item_id it) (ver_id dv1) (styles dv1) (snd e) = Inr (snd e1))"
    show "fst e1 = fst e
          \<and> map fst (styles (snd e1))
              = map fst (styles (snd e)) @ filter (\<lambda>s. s \<notin> set (map fst (styles (snd e)))) (map fst bases_of)
          \<and> list_all (\<lambda>entry. is_variant (snd entry) \<or> alias_target (snd entry) \<noteq> None) (styles (snd e1))
          \<and> (direct_item it \<longrightarrow> list_all (\<lambda>entry. is_variant (snd entry)) (styles (snd e1)))"
    proof (cases "fst e = def_ver it")
      case True
      with e have "(def_ver it, snd e) \<in> set (versions it)" by (metis prod.collapse)
      with dvk dmem have "snd e = dv" by (meson eq_key_imp_eq_value)
      with True r gd show ?thesis by simp
    next
      case False
      with r have w: "complete_version bases_of (item_id it) (ver_id dv1) (styles dv1) (snd e) = Inr (snd e1)"
        by simp
      from good[OF e w] nl r show ?thesis by blast
    qed
  qed
qed

text \<open>
  Claim C1, as the code has it. When \<^verbatim>\<open>setup_style_tree\<close> returns, it has kept every
  item and every version of it. The style dict of each version has the keys it had,
  followed by the known style ids it lacked, in the order of \<^verbatim>\<open>all_styles\<close>: so it has a
  slot for every known style, and no modification block is left in any slot. When every
  style lookup of the item names a slot of its version that is not itself a style lookup,
  every slot holds a variant. When the item has slots for known styles only, the slots of
  its versions number the known styles times the versions.
\<close>

theorem completion_fills_slots:
  assumes run: "setup_style_tree item_data style_data = Inr (items, bases_of)"
    and i: "i < length item_data"
    and dict: "dict_item (item_data ! i)"
  shows "length items = length item_data
    \<and> list_all2 (\<lambda>e e1. fst e1 = fst e
          \<and> map fst (styles (snd e1)) = completed_keys (build_all_styles style_data) (styles (snd e))
          \<and> list_all (\<lambda>s. map_of (styles (snd e1)) (style_id s) \<noteq> None) style_data
          \<and> list_all (\<lambda>entry. is_variant (snd entry) \<or> alias_target (snd entry) \<noteq> None)
               (styles (snd e1)))
        (versions (item_data ! i)) (versions (items ! i))
    \<and> (direct_item (item_data ! i)
          \<longrightarrow> list_all (\<lambda>e1. list_all (\<lambda>entry. is_variant (snd entry)) (styles (snd e1)))
                (versions (items ! i)))
    \<and> (only_known style_data (item_data ! i)
          \<longrightarrow> slot_count (items ! i)
              = length (build_all_styles style_data) * length (versions (item_data ! i)))"
proof -
  define all_styles where "all_styles = build_all_styles style_data"
  from run have rb: "resolve_bases all_styles = Inr bases_of"
    and si: "setup_items bases_of item_data = Inr items"
    by (auto simp: setup_style_tree_def all_styles_def split: sum.splits)
  note keys = resolve_bases_keys[OF rb]
  from build_all_styles_keys[of style_data]
  have da: "distinct (map fst all_styles)"
    and sa: "set (map fst all_styles) = set (map style_id style_data)"
    by (simp_all add: all_styles_def)
  from da keys have db: "distinct (map fst bases_of)" by simp
  note shape = setup_items_shape[OF si]
  then have len: "length items = length item_data" by (simp add: list_all2_lengthD)
  from shape i have one: "setup_item bases_of (item_data ! i) = Inr (items ! i)"
    by (simp add: list_all2_conv_all_nth)
  define it where "it = item_data ! i"
  define it1 where "it1 = items ! i"
  note inv = setup_item_inv[OF one db dict, folded it_def it1_def]
  from dict have dsk: "\<And>e. e \<in> set (versions it) \<Longrightarrow> distinct (map fst (styles (snd e)))"
    by (auto simp: dict_item_def list_all_iff it_def)
  have part2: "list_all2 (\<lambda>e e1. fst e1 = fst e
          \<and> map fst (styles (snd e1)) = completed_keys all_styles (styles (snd e))
          \<and> list_all (\<lambda>s. map_of (styles (snd e1)) (style_id s) \<noteq> None) style_data
          \<and> list_all (\<lambda>entry. is_variant (snd entry) \<or> alias_target (snd entry) \<noteq> None)
               (styles (snd e1)))
        (versions it) (versions it1)"
  proof (rule list_all2_mono[OF inv])
    fix e e1
    assume r: "fst e1 = fst e
          \<and> map fst (styles (snd e1))
              = map fst (styles (snd e)) @ filter (\<lambda>s. s \<notin> set (map fst (styles (snd e)))) (map fst bases_of)
          \<and> list_all (\<lambda>entry. is_variant (snd entry) \<or> alias_target (snd entry) \<noteq> None) (styles (snd e1))
          \<and> (direct_item it \<longrightarrow> list_all (\<lambda>entry. is_variant (snd entry)) (styles (snd e1)))"
    then have k: "map fst (styles (snd e1)) = completed_keys all_styles (styles (snd e))"
      by (simp add: completed_keys_def keys)
    then have "set (map style_id style_data) \<subseteq> set (map fst (styles (snd e1)))"
      using sa by (auto simp: completed_keys_def)
    then have "list_all (\<lambda>s. map_of (styles (snd e1)) (style_id s) \<noteq> None) style_data"
      unfolding list_all_iff using map_of_present[of "styles (snd e1)"] by auto
    with r k show "fst e1 = fst e
          \<and> map fst (styles (snd e1)) = completed_keys all_styles (styles (snd e))
          \<and> list_all (\<lambda>s. map_of (styles (snd e1)) (style_id s) \<noteq> None) style_data
          \<and> list_all (\<lambda>entry. is_variant (snd entry) \<or> alias_target (snd entry) \<noteq> None)
               (styles (snd e1))"
      by blast
  qed
  have part3: "list_all (\<lambda>e1. list_all (\<lambda>entry. is_variant (snd entry)) (styles (snd e1))) (versions it1)"
    if "direct_item it"
  proof -
    from inv that
    have "list_all2 (\<lambda>e e1. list_all (\<lambda>entry. is_variant (snd entry)) (styles (snd e1)))
        (versions it) (versions it1)"
      by (auto elim!: list_all2_mono)
    then show ?thesis by (rule list_all2_right)
  qed
  have part4: "slot_count it1 = length all_styles * length (versions it)"
    if known: "only_known style_data it"
  proof -
    have "list_all2 (\<lambda>e e1. length (styles (snd e1)) = length all_styles) (versions it) (versions it1)"
    proof (rule list.rel_mono_strong[OF inv])
      fix e e1
      assume e: "e \<in> set (versions it)"
        and r: "fst e1 = fst e
          \<and> map fst (styles (snd e1))
              = map fst (styles (snd e)) @ filter (\<lambda>s. s \<notin> set (map fst (styles (snd e)))) (map fst bases_of)
          \<and> list_all (\<lambda>entry. is_variant (snd entry) \<or> alias_target (snd entry) \<noteq> None) (styles (snd e1))
          \<and> (direct_item it \<longrightarrow> list_all (\<lambda>entry. is_variant (snd entry)) (styles (snd e1)))"
      from known e have sub: "set (map fst (styles (snd e))) \<subseteq> set (map fst all_styles)"
        unfolding sa by (auto simp: only_known_def list_all_iff)
      have "length (styles (snd e1)) = length (map fst (styles (snd e1)))" by simp
      also have "\<dots> = length (map fst (styles (snd e))
            @ filter (\<lambda>s. s \<notin> set (map fst (styles (snd e)))) (map fst all_styles))"
        using r keys by simp
      also have "\<dots> = length (map fst all_styles)"
        by (rule completed_keys_length[OF dsk[OF e] da sub])
      finally show "length (styles (snd e1)) = length all_styles" by simp
    qed
    from list_all2_sum[OF this] show ?thesis by (simp add: slot_count_def)
  qed
  from len part2 part3 part4 show ?thesis
    unfolding it_def it1_def all_styles_def by blast
qed

theorem completion_fills_slots_witness:
  "setup_style_tree [tree_item] tree_style_data = Inr tree_completed
   \<and> dict_item tree_item \<and> direct_item tree_item \<and> only_known tree_style_data tree_item
   \<and> length (fst tree_completed) = 1
   \<and> map (\<lambda>e. map fst (styles (snd e))) (versions (fst tree_completed ! 0))
       = [[''ROOT'', ''MID'', ''LEAF''], [''MID'', ''LEAF'', ''ROOT'']]
   \<and> list_all (\<lambda>e1. list_all (\<lambda>entry. is_variant (snd entry)) (styles (snd e1)))
        (versions (fst tree_completed ! 0))
   \<and> slot_count (fst tree_completed ! 0) = 3 * 2"
proof -
  have run: "setup_style_tree [tree_item] tree_style_data = Inr (fst tree_completed, snd tree_completed)"
    by code_simp
  have i: "0 < length [tree_item]" by simp
  have d: "dict_item ([tree_item] ! 0)" by code_simp
  have dl: "direct_item ([tree_item] ! 0)" by code_simp
  have k: "only_known tree_style_data ([tree_item] ! 0)" by code_simp
  have n: "length (build_all_styles tree_style_data) * length (versions ([tree_item] ! 0)) = 3 * 2"
    by code_simp
  have ks: "map (\<lambda>e. map fst (styles (snd e))) (versions (fst tree_completed ! 0))
       = [[''ROOT'', ''MID'', ''LEAF''], [''MID'', ''LEAF'', ''ROOT'']]"
    by code_simp
  note inst = completion_fills_slots[OF run i d]
  from inst have a: "length (fst tree_completed) = length [tree_item]" by (rule conjunct1)
  from inst[THEN conjunct2, THEN conjunct2, THEN conjunct1, THEN mp, OF dl]
  have b: "list_all (\<lambda>e1. list_all (\<lambda>entry. is_variant (snd entry)) (styles (snd e1)))
        (versions (fst tree_completed ! 0))" .
  from inst[THEN conjunct2, THEN conjunct2, THEN conjunct2, THEN mp, OF k]
  have c: "slot_count (fst tree_completed ! 0) = 3 * 2" unfolding n .
  from run have r: "setup_style_tree [tree_item] tree_style_data = Inr tree_completed" by simp
  from d dl k have d': "dict_item tree_item" and dl': "direct_item tree_item"
    and k': "only_known tree_style_data tree_item" by simp_all
  from a have a': "length (fst tree_completed) = 1" by simp
  show ?thesis by (intro conjI; fact)
qed

theorem completion_fills_slots_counterexample:
  "(case setup_style_tree [extra_item] tree_style_data of
      Inl e \<Rightarrow> False
    | Inr (items, bases_of) \<Rightarrow>
        length bases_of = 3 \<and> length (versions (items ! 0)) = 1
        \<and> map fst (styles (snd (versions (items ! 0) ! 0))) = [''ROOT'', ''UNKNOWN'', ''MID'', ''LEAF'']
        \<and> slot_count (items ! 0) = 4)
   \<and> slot_at (setup_style_tree [chain_item] tree_style_data) 0 ''VER_DEFAULT'' ''ROOT''
       = Some (PropSlot (Leaf None ''LEAF''))"
  by code_simp

text \<open>
  Claim C2. The first loop of \<^verbatim>\<open>setup_style_tree\<close> writes the slots it fills into the dict
  it is reading, so a slot that was filled counts as a definition for the styles that
  come later in \<^verbatim>\<open>all_styles\<close>. With the styles \<open>CLEAN\<close>, \<open>PARENT\<close> and \<open>CHILD\<close> (base
  \<open>PARENT\<close>), a default version that defines \<open>CLEAN\<close> and \<open>CHILD\<close>, and a second version that
  defines \<open>CLEAN\<close> only, the \<open>CHILD\<close> slot of the second version is the default version's
  \<open>CLEAN\<close> definition when \<open>PARENT\<close> is declared before \<open>CHILD\<close>, and the default version's
  \<open>CHILD\<close> definition when it is declared after. With \<open>ROOT \<leftarrow> MID \<leftarrow> LEAF\<close> and an item
  that defines \<open>ROOT\<close> and \<open>MID\<close>, the \<open>LEAF\<close> slot is the \<open>MID\<close> definition.
\<close>

theorem fallback_depends_on_style_order:
  "slot_at (setup_style_tree [order_item] [style_Clean, style_Parent, style_Child]) 0 ''VER_DEFAULT'' ''CHILD''
     = Some (Variant (plain_variant ''items/child''))
   \<and> slot_at (setup_style_tree [order_item] [style_Clean, style_Parent, style_Child]) 0 ''VER_2'' ''PARENT''
     = Some (Variant (plain_variant ''items/clean''))
   \<and> slot_at (setup_style_tree [order_item] [style_Clean, style_Parent, style_Child]) 0 ''VER_2'' ''CHILD''
     = Some (Variant (plain_variant ''items/clean''))
   \<and> slot_at (setup_style_tree [order_item] [style_Clean, style_Child, style_Parent]) 0 ''VER_2'' ''CHILD''
     = Some (Variant (plain_variant ''items/child''))
   \<and> slot_at (setup_style_tree [root_mid_item] tree_style_data) 0 ''VER_DEFAULT'' ''LEAF''
     = Some (Variant (plain_variant ''items/mid''))"
  by code_simp

section \<open>The enabled flag of a package\<close>

lemma boolean_state_bool_as_int: "boolean_state (bool_as_int b) = Some b"
  by (cases b) (simp_all add: boolean_state_def bool_as_int_def casefold_def lower_char_def)

text \<open>
  Claim C10. The package \<^verbatim>\<open>BEE2_CLEAN_STYLE\<close> is enabled whatever the configuration
  holds, and setting its flag raises \<^verbatim>\<open>ValueError\<close> and leaves the configuration as it
  was. For every other package the getter is \<^verbatim>\<open>get_bool(id, 'Enabled', default=True)\<close>:
  true when nothing is stored, and the stored value when the setter stored one.
\<close>

theorem clean_package_enabled:
  "(pak_id p = CLEAN_PACKAGE \<longrightarrow>
      enabled conf p \<and> (\<exists>msg. set_enabled conf p v = (Some (ValueError msg), conf)))
   \<and> (pak_id p \<noteq> CLEAN_PACKAGE \<longrightarrow>
      enabled conf p = get_bool conf (pak_id p) ''Enabled'' True
      \<and> (conf (pak_id p, ''Enabled'') = None \<longrightarrow> enabled conf p)
      \<and> (conf (pak_id p, ''Enabled'') = Some (bool_as_int v) \<longrightarrow> enabled conf p = v)
      \<and> set_enabled conf p v = (None, conf((pak_id p, ''Enabled'') \<mapsto> bool_as_int v))
      \<and> enabled (snd (set_enabled conf p v)) p = v)"
  by (simp add: enabled_def set_enabled_def get_bool_def boolean_state_bool_as_int)

theorem clean_package_enabled_witness:
  "pak_id clean_pack = CLEAN_PACKAGE
   \<and> enabled disabling_config clean_pack
   \<and> fst (set_enabled disabling_config clean_pack False)
       = Some (ValueError ''The Clean Style package cannot be disabled!'')
   \<and> snd (set_enabled disabling_config clean_pack False) = disabling_config
   \<and> pak_id other_pack \<noteq> CLEAN_PACKAGE
   \<and> disabling_config (pak_id other_pack, ''Enabled'') = Some (bool_as_int False)
   \<and> \<not> enabled disabling_config other_pack
   \<and> Map.empty (pak_id other_pack, ''Enabled'') = (None :: string option)
   \<and> enabled Map.empty other_pack
   \<and> enabled (snd (set_enabled disabling_config other_pack True)) other_pack"
proof -
  have c: "pak_id clean_pack = CLEAN_PACKAGE"
    by (simp add: clean_pack_def CLEAN_PACKAGE_def)
  have o: "pak_id other_pack \<noteq> CLEAN_PACKAGE"
    by (simp add: other_pack_def CLEAN_PACKAGE_def)
  have s: "disabling_config (pak_id other_pack, ''Enabled'') = Some (bool_as_int False)"
    by (simp add: disabling_config_def other_pack_def bool_as_int_def)
  have e: "Map.empty (pak_id other_pack, ''Enabled'') = (None :: string option)" by simp
  from clean_package_enabled[of clean_pack disabling_config False] c
  have 1: "enabled disabling_config clean_pack"
    and 2: "\<exists>msg. set_enabled disabling_config clean_pack False = (Some (ValueError msg), disabling_config)"
    by blast+
  from 2 have 3: "snd (set_enabled disabling_config clean_pack False) = disabling_config" by auto
  have 4: "fst (set_enabled disabling_config clean_pack False)
       = Some (ValueError ''The Clean Style package cannot be disabled!'')"
    using c by (simp add: set_enabled_def)
  from clean_package_enabled[of other_pack disabling_config False] o s
  have 5: "\<not> enabled disabling_config other_pack" by blast
  from clean_package_enabled[of other_pack Map.empty False] o
  have 6: "enabled Map.empty other_pack" using e by blast
  from clean_package_enabled[of other_pack disabling_config True] o
  have 7: "enabled (snd (set_enabled disabling_config other_pack True)) other_pack" by blast
  from c o s e 1 3 4 5 6 7 show ?thesis by blast
qed

section \<open>Duplicate declarations in the object registry\<close>

lemma queue_override_all_obj [simp]: "all_obj (queue_override pack t oid obj reg) = all_obj reg"
  by (simp add: queue_override_def)

lemma read_overrides_all_obj:
  "read_overrides pack t reg objs = Inr reg1 \<Longrightarrow> all_obj reg1 = all_obj reg"
  by (induction objs arbitrary: reg) (auto split: sum.splits)

lemma read_object_keeps:
  assumes "read_object pack t a reg obj = Inr reg1" and "map_of (all_obj reg t') k \<noteq> None"
  shows "map_of (all_obj reg1 t') k \<noteq> None"
  using assms
  by (auto simp: read_object_def update_conv' split: sum.splits if_splits)

lemma read_objects_keeps:
  assumes "read_objects pack t a reg objs = Inr reg1" and "map_of (all_obj reg t') k \<noteq> None"
  shows "map_of (all_obj reg1 t') k \<noteq> None"
  using assms
proof (induction objs arbitrary: reg)
  case Nil
  then show ?case by simp
next
  case (Cons obj objs)
  then obtain reg2 where r: "read_object pack t a reg obj = Inr reg2"
    and rest: "read_objects pack t a reg2 objs = Inr reg1"
    by (auto split: sum.splits)
  from read_object_keeps[OF r Cons.prems(2)] Cons.IH[OF rest] show ?case by blast
qed

lemma read_objects_duplicate:
  assumes "obj \<in> set objs" and "obj_id_of obj = Inr oid"
    and "map_of (all_obj reg t) oid \<noteq> None"
  shows "\<exists>e. read_objects pack t False reg objs = Inl e"
  using assms
proof (induction objs arbitrary: reg)
  case Nil
  then show ?case by simp
next
  case (Cons x objs)
  show ?case
  proof (cases "read_object pack t False reg x")
    case (Inl e)
    then show ?thesis by simp
  next
    case (Inr reg2)
    have "x \<noteq> obj"
    proof
      assume "x = obj"
      with Cons.prems(2,3) have "read_object pack t False reg x = Inl (DefinedTwice oid)"
        by (simp add: read_object_def)
      with Inr show False by simp
    qed
    with Cons.prems(1) have mem: "obj \<in> set objs" by auto
    from read_object_keeps[OF Inr Cons.prems(3)]
    have "map_of (all_obj reg2 t) oid \<noteq> None" .
    from Cons.IH[OF mem Cons.prems(2) this] Inr show ?thesis by simp
  qed
qed

lemma read_components_duplicate:
  assumes "(t, False) \<in> set types" and "obj \<in> set (find_all [t] (pak_info pack))"
    and "obj_id_of obj = Inr oid" and "map_of (all_obj reg t) oid \<noteq> None"
  shows "\<exists>e. read_components pack reg types = Inl e"
  using assms
proof (induction types arbitrary: reg)
  case Nil
  then show ?case by simp
next
  case (Cons entry types)
  obtain t' a' where entry: "entry = (t', a')" by (cases entry)
  show ?case
  proof (cases "read_overrides pack t' reg (find_all [''Overrides'', t'] (pak_info pack))")
    case (Inl e)
    with entry show ?thesis by simp
  next
    case (Inr reg1)
    from read_overrides_all_obj[OF Inr] Cons.prems(4)
    have k1: "map_of (all_obj reg1 t) oid \<noteq> None" by simp
    show ?thesis
    proof (cases "read_objects pack t' a' reg1 (find_all [t'] (pak_info pack))")
      case (Inl e)
      with Inr entry show ?thesis by simp
    next
      case reg2: (Inr reg2)
      have "(t', a') \<noteq> (t, False)"
      proof
        assume "(t', a') = (t, False)"
        with read_objects_duplicate[OF Cons.prems(2,3) k1, of pack] reg2 show False by auto
      qed
      with Cons.prems(1) entry have mem: "(t, False) \<in> set types" by auto
      from read_objects_keeps[OF reg2 k1] have "map_of (all_obj reg2 t) oid \<noteq> None" .
      from Cons.IH[OF mem Cons.prems(2,3) this] Inr reg2 entry show ?thesis by simp
    qed
  qed
qed

text \<open>The loop over the overrides of an object, and the loop over the objects of a type.\<close>

lemma apply_overrides_snoc:
  "apply_overrides cls object (ds @ [d])
     = (case apply_overrides cls object ds of
          Inl e \<Rightarrow> Inl e
        | Inr object1 \<Rightarrow> apply_override cls object1 d)"
  by (induction ds arbitrary: object) (auto split: sum.splits)

lemma load_object_snoc:
  "load_object cls t oid od (ds @ [d])
     = (case load_object cls t oid od ds of
          Inl e \<Rightarrow> Inl e
        | Inr (key, object) \<Rightarrow>
            (case apply_override cls (po_obj object) d of
               Inl e \<Rightarrow> Inl e
             | Inr object1 \<Rightarrow> Inr (key, object \<lparr> po_obj := object1 \<rparr>)))"
proof (cases "cls_parse cls \<lparr> pd_zip_file = od_zip_file od, pd_id = oid, pd_info = od_info_block od,
                                  pd_pak_id = od_pak_id od, pd_is_override = False \<rparr>")
  case (Inl e)
  then show ?thesis by (simp add: load_object_def)
next
  case (Inr object)
  note p = this
  show ?thesis
  proof (cases "cls_id cls object")
    case None
    with p show ?thesis by (simp add: load_object_def)
  next
    case (Some i)
    note i = this
    show ?thesis
    proof (cases "apply_overrides cls object ds")
      case (Inl e)
      with p i show ?thesis by (simp add: load_object_def apply_overrides_snoc)
    next
      case (Inr object1)
      with p i show ?thesis
        by (cases "apply_override cls object1 d") (simp_all add: load_object_def apply_overrides_snoc)
    qed
  qed
qed

lemma load_objects_keeps:
  "load_objects cls t ovr st objs = Inr loaded \<Longrightarrow> set (fst st) \<subseteq> set (fst loaded)"
proof (induction objs arbitrary: st)
  case Nil
  then show ?case by simp
next
  case (Cons entry objs)
  obtain k d where e: "entry = (k, d)" by (cases entry)
  from Cons.prems e obtain key object where
    rest: "load_objects cls t ovr (fst st @ [object], AList.update key object (snd st)) objs = Inr loaded"
    by (auto split: sum.splits)
  from Cons.IH[OF rest] show ?case by auto
qed

lemma load_objects_member:
  assumes "load_objects cls t ovr st objs = Inr loaded" and "(oid, od) \<in> set objs"
  shows "\<exists>key object. load_object cls t oid od (ovr oid) = Inr (key, object)
           \<and> object \<in> set (fst loaded)"
  using assms
proof (induction objs arbitrary: st)
  case Nil
  then show ?case by simp
next
  case (Cons entry objs)
  obtain k d where e: "entry = (k, d)" by (cases entry)
  from Cons.prems(1) e obtain key object where
    one: "load_object cls t k d (ovr k) = Inr (key, object)"
    and rest: "load_objects cls t ovr (fst st @ [object], AList.update key object (snd st)) objs = Inr loaded"
    by (auto split: sum.splits)
  show ?case
  proof (cases "(oid, od) = entry")
    case True
    from load_objects_keeps[OF rest] have "object \<in> set (fst loaded)" by auto
    with one True e show ?thesis by auto
  next
    case False
    with Cons.prems(2) have "(oid, od) \<in> set objs" by simp
    from Cons.IH[OF rest this] show ?thesis .
  qed
qed

text \<open>
  Claim C5, as the code has it. An object whose id is already a key of
  \<^verbatim>\<open>all_obj[type]\<close> (the very same string) is a second declaration. For a type that
  does not allow multiples it raises \<^verbatim>\<open>ERROR! "<id>" defined twice!\<close>: the error carries
  the id and nothing of the package. The exception is not caught: \<^verbatim>\<open>parse_package\<close> and
  the loop of \<^verbatim>\<open>load_packages\<close> end with an exception as soon as an enabled package
  whose prerequisites are met holds such an object. For a type that allows multiples the
  declaration is appended to the override queue of the id, marked as an override, and
  \<^verbatim>\<open>all_obj\<close> keeps the first declaration. When the objects are loaded, the object of
  the id is built from the first declaration; the queued declaration is parsed by the
  class and handed to \<^verbatim>\<open>add_over\<close> of that object, after the overrides queued before
  it, and the object so changed is the one in \<^verbatim>\<open>data[type]\<close>.
\<close>

theorem duplicate_declaration:
  assumes "obj_id_of obj = Inr oid"
    and "map_of (all_obj reg comp_type) oid = Some od"
  shows "read_object pack comp_type False reg obj = Inl (DefinedTwice oid)
    \<and> (\<exists>reg1. read_object pack comp_type True reg obj = Inr reg1
          \<and> all_obj reg1 = all_obj reg
          \<and> obj_override reg1 comp_type oid = obj_override reg comp_type oid
               @ [\<lparr> pd_zip_file = pak_zip pack, pd_id = oid, pd_info = obj,
                     pd_pak_id = pak_id pack, pd_is_override = True \<rparr>]
          \<and> load_object cls comp_type oid od (obj_override reg1 comp_type oid)
              = (case load_object cls comp_type oid od (obj_override reg comp_type oid) of
                   Inl e \<Rightarrow> Inl e
                 | Inr (key, object) \<Rightarrow>
                     (case apply_override cls (po_obj object)
                             \<lparr> pd_zip_file = pak_zip pack, pd_id = oid, pd_info = obj,
                               pd_pak_id = pak_id pack, pd_is_override = True \<rparr> of
                        Inl e \<Rightarrow> Inl e
                      | Inr object1 \<Rightarrow> Inr (key, object \<lparr> po_obj := object1 \<rparr>)))
          \<and> (\<forall>st loaded.
                load_objects cls comp_type (obj_override reg1 comp_type) st (all_obj reg1 comp_type)
                  = Inr loaded
                \<longrightarrow> (\<exists>key object.
                       load_object cls comp_type oid od (obj_override reg1 comp_type oid) = Inr (key, object)
                       \<and> object \<in> set (fst loaded))))
    \<and> ((comp_type, False) \<in> set OBJ_TYPES
          \<and> obj \<in> set (find_all [comp_type] (pak_info pack))
          \<and> prerequisites_met has_tag has_mel known (prerequisites pack) = Inr True
          \<and> enabled conf pack
        \<longrightarrow> (\<exists>e. parse_package known reg pack has_tag has_mel = Inl e)
          \<and> (\<exists>e. parse_packages conf known has_tag has_mel (images, reg) (pack # packs) = Inl e))"
proof -
  define pd where "pd = \<lparr> pd_zip_file = pak_zip pack, pd_id = oid, pd_info = obj,
                     pd_pak_id = pak_id pack, pd_is_override = True \<rparr>"
  define reg1 where "reg1 = queue_override pack comp_type oid obj reg"
  from assms(2) have present: "map_of (all_obj reg comp_type) oid \<noteq> None" by simp
  have one: "read_object pack comp_type False reg obj = Inl (DefinedTwice oid)"
    using assms(1) present by (simp add: read_object_def)
  have r1: "read_object pack comp_type True reg obj = Inr reg1"
    using assms(1) present by (simp add: read_object_def reg1_def)
  have r2: "all_obj reg1 = all_obj reg" by (simp add: reg1_def)
  have r3: "obj_override reg1 comp_type oid = obj_override reg comp_type oid @ [pd]"
    by (simp add: reg1_def queue_override_def pd_def)
  have r4: "load_object cls comp_type oid od (obj_override reg1 comp_type oid)
              = (case load_object cls comp_type oid od (obj_override reg comp_type oid) of
                   Inl e \<Rightarrow> Inl e
                 | Inr (key, object) \<Rightarrow>
                     (case apply_override cls (po_obj object) pd of
                        Inl e \<Rightarrow> Inl e
                      | Inr object1 \<Rightarrow> Inr (key, object \<lparr> po_obj := object1 \<rparr>)))"
    unfolding r3 by (rule load_object_snoc)
  have r5: "\<forall>st loaded.
                load_objects cls comp_type (obj_override reg1 comp_type) st (all_obj reg1 comp_type)
                  = Inr loaded
                \<longrightarrow> (\<exists>key object.
                       load_object cls comp_type oid od (obj_override reg1 comp_type oid) = Inr (key, object)
                       \<and> object \<in> set (fst loaded))"
  proof (intro allI impI)
    fix st loaded
    assume l: "load_objects cls comp_type (obj_override reg1 comp_type) st (all_obj reg1 comp_type)
                  = Inr loaded"
    from assms(2) have "(oid, od) \<in> set (all_obj reg1 comp_type)"
      unfolding r2 by (rule map_of_SomeD)
    from load_objects_member[OF l this]
    show "\<exists>key object.
            load_object cls comp_type oid od (obj_override reg1 comp_type oid) = Inr (key, object)
            \<and> object \<in> set (fst loaded)" .
  qed
  have two: "\<exists>reg1. read_object pack comp_type True reg obj = Inr reg1
          \<and> all_obj reg1 = all_obj reg
          \<and> obj_override reg1 comp_type oid = obj_override reg comp_type oid @ [pd]
          \<and> load_object cls comp_type oid od (obj_override reg1 comp_type oid)
              = (case load_object cls comp_type oid od (obj_override reg comp_type oid) of
                   Inl e \<Rightarrow> Inl e
                 | Inr (key, object) \<Rightarrow>
                     (case apply_override cls (po_obj object) pd of
                        Inl e \<Rightarrow> Inl e
                      | Inr object1 \<Rightarrow> Inr (key, object \<lparr> po_obj := object1 \<rparr>)))
          \<and> (\<forall>st loaded.
                load_objects cls comp_type (obj_override reg1 comp_type) st (all_obj reg1 comp_type)
                  = Inr loaded
                \<longrightarrow> (\<exists>key object.
                       load_object cls comp_type oid od (obj_override reg1 comp_type oid) = Inr (key, object)
                       \<and> object \<in> set (fst loaded)))"
    using r1 r2 r3 r4 r5 by (intro exI[of _ reg1] conjI)
  have three: "(\<exists>e. parse_package known reg pack has_tag has_mel = Inl e)
          \<and> (\<exists>e. parse_packages conf known has_tag has_mel (images, reg) (pack # packs) = Inl e)"
    if h: "(comp_type, False) \<in> set OBJ_TYPES"
       "obj \<in> set (find_all [comp_type] (pak_info pack))"
       "prerequisites_met has_tag has_mel known (prerequisites pack) = Inr True"
       "enabled conf pack"
  proof -
    from read_components_duplicate[OF h(1,2) assms(1) present]
    obtain e where "read_components pack reg OBJ_TYPES = Inl e" by blast
    with h(3) have "parse_package known reg pack has_tag has_mel = Inl e"
      by (simp add: parse_package_def)
    with h(4) show ?thesis by simp
  qed
  from one two three show ?thesis unfolding pd_def by blast
qed

lemma obj_id_style_decl: "obj_id_of (style_decl oid) = Inr oid"
  by (simp add: obj_id_of_def get_item_def find_key_def children_def style_decl_def named_def
        pname_def pvalue_def casefold_def lower_char_def)

lemma casefold_Style: "casefold ''Style'' = ''style''"
  by (simp add: casefold_def lower_char_def)

lemma find_style_decl:
  "find_all [''Style''] (pak_info (pack_of pid [style_decl oid])) = [style_decl oid]"
  by (simp add: pack_of_def children_def named_def pname_def style_decl_def casefold_Style)

theorem duplicate_declaration_witness:
  "obj_id_of (style_decl ''BEE2_CLEAN'') = Inr ''BEE2_CLEAN''
   \<and> map_of (all_obj first_registry ''Style'') ''BEE2_CLEAN'' \<noteq> None
   \<and> read_object (pack_of ''PAK_TWO'' [style_decl ''BEE2_CLEAN'']) ''Style'' False first_registry
        (style_decl ''BEE2_CLEAN'') = Inl (DefinedTwice ''BEE2_CLEAN'')
   \<and> (''Style'', False) \<in> set OBJ_TYPES
   \<and> style_decl ''BEE2_CLEAN'' \<in> set (find_all [''Style''] (pak_info (pack_of ''PAK_TWO'' [style_decl ''BEE2_CLEAN''])))
   \<and> prerequisites_met False False [''PAK_ONE'', ''PAK_TWO'']
        (prerequisites (pack_of ''PAK_TWO'' [style_decl ''BEE2_CLEAN''])) = Inr True
   \<and> enabled Map.empty (pack_of ''PAK_TWO'' [style_decl ''BEE2_CLEAN''])
   \<and> (\<exists>e. parse_packages Map.empty [''PAK_ONE'', ''PAK_TWO''] False False (0, first_registry)
              [pack_of ''PAK_TWO'' [style_decl ''BEE2_CLEAN'']] = Inl e)
   \<and> obj_id_of (stylevar_decl ''FixFizz'' ''BEE2_1950s'' ''Also in the fifties.'') = Inr ''FixFizz''
   \<and> map fst (all_obj var_registry ''StyleVar'') = [''FixFizz'']
   \<and> (\<exists>reg1. read_object var_pack_two ''StyleVar'' True var_registry
                (stylevar_decl ''FixFizz'' ''BEE2_1950s'' ''Also in the fifties.'') = Inr reg1
        \<and> all_obj reg1 = all_obj var_registry
        \<and> map pd_pak_id (obj_override reg1 ''StyleVar'' ''FixFizz'') = [''PAK_TWO'']
        \<and> map_option (\<lambda>r. (po_pak_id (snd r), sv_styles (po_obj (snd r)), sv_desc (po_obj (snd r))))
             (case load_object StyleVar ''StyleVar'' ''FixFizz''
                     (the (map_of (all_obj var_registry ''StyleVar'') ''FixFizz''))
                     (obj_override reg1 ''StyleVar'' ''FixFizz'') of
                Inl e \<Rightarrow> None | Inr r \<Rightarrow> Some r)
           = Some (''PAK_ONE'', Some [VStr ''BEE2_CLEAN'', VStr ''BEE2_1950s''],
                   ''Fixes fizzlers.'' @ [CHR 0x0A, CHR 0x0A] @ ''Also in the fifties.''))"
proof -
  let ?p = "pack_of ''PAK_TWO'' [style_decl ''BEE2_CLEAN'']"
  let ?d = "stylevar_decl ''FixFizz'' ''BEE2_1950s'' ''Also in the fifties.''"
  let ?od = "the (map_of (all_obj var_registry ''StyleVar'') ''FixFizz'')"
  have a: "obj_id_of (style_decl ''BEE2_CLEAN'') = Inr ''BEE2_CLEAN''" by (rule obj_id_style_decl)
  have b: "map_of (all_obj first_registry ''Style'') ''BEE2_CLEAN''
      = Some \<lparr> od_zip_file = ''packages/PAK_ONE.zip'', od_info_block = style_decl ''BEE2_CLEAN'',
               od_pak_id = ''PAK_ONE'', od_disp_name = ''PAK_ONE'' \<rparr>"
    by (simp add: first_registry_def empty_registry_def)
  then have b': "map_of (all_obj first_registry ''Style'') ''BEE2_CLEAN'' \<noteq> None" by simp
  have c: "(''Style'', False) \<in> set OBJ_TYPES" by (simp add: OBJ_TYPES_def)
  have d: "style_decl ''BEE2_CLEAN'' \<in> set (find_all [''Style''] (pak_info ?p))"
    by (simp only: find_style_decl) simp
  have e: "prerequisites_met False False [''PAK_ONE'', ''PAK_TWO''] (prerequisites ?p) = Inr True"
    by code_simp
  have f: "enabled Map.empty ?p"
    by (simp add: enabled_def get_bool_def)
  note inst = duplicate_declaration[OF a b, of ?p StyleVar False False "[''PAK_ONE'', ''PAK_TWO'']" Map.empty 0 "[]"]
  from inst have g: "read_object ?p ''Style'' False first_registry (style_decl ''BEE2_CLEAN'')
      = Inl (DefinedTwice ''BEE2_CLEAN'')" by (rule conjunct1)
  have hyp: "(''Style'', False) \<in> set OBJ_TYPES
          \<and> style_decl ''BEE2_CLEAN'' \<in> set (find_all [''Style''] (pak_info ?p))
          \<and> prerequisites_met False False [''PAK_ONE'', ''PAK_TWO''] (prerequisites ?p) = Inr True
          \<and> enabled Map.empty ?p"
    by (intro conjI; fact)
  from inst[THEN conjunct2, THEN conjunct2, THEN mp, OF hyp]
  have h: "\<exists>e. parse_packages Map.empty [''PAK_ONE'', ''PAK_TWO''] False False
      (0, first_registry) [?p] = Inl e" by (rule conjunct2)
  have a2: "obj_id_of ?d = Inr ''FixFizz''" by code_simp
  have k2: "map fst (all_obj var_registry ''StyleVar'') = [''FixFizz'']"
    by (simp add: var_registry_def empty_registry_def)
  have b2: "map_of (all_obj var_registry ''StyleVar'') ''FixFizz'' = Some ?od"
    by (simp add: var_registry_def empty_registry_def)
  have first: "load_object StyleVar ''StyleVar'' ''FixFizz'' ?od (obj_override var_registry ''StyleVar'' ''FixFizz'')
      = Inr (''fixfizz'',
             \<lparr> po_obj = \<lparr> sv_id = ''FixFizz'', sv_name = VStr ''Fix fizzlers'', sv_default = False,
                          sv_enabled = False, sv_desc = ''Fixes fizzlers.'',
                          sv_styles = Some [VStr ''BEE2_CLEAN''] \<rparr>,
               po_pak_id = ''PAK_ONE'', po_pak_name = ''PAK_ONE'' \<rparr>)"
    by code_simp
  have over: "apply_override StyleVar
        \<lparr> sv_id = ''FixFizz'', sv_name = VStr ''Fix fizzlers'', sv_default = False,
          sv_enabled = False, sv_desc = ''Fixes fizzlers.'', sv_styles = Some [VStr ''BEE2_CLEAN''] \<rparr>
        \<lparr> pd_zip_file = pak_zip var_pack_two, pd_id = ''FixFizz'', pd_info = ?d,
          pd_pak_id = pak_id var_pack_two, pd_is_override = True \<rparr>
      = Inr \<lparr> sv_id = ''FixFizz'', sv_name = VStr ''Fix fizzlers'', sv_default = False,
              sv_enabled = False,
              sv_desc = ''Fixes fizzlers.'' @ [CHR 0x0A, CHR 0x0A] @ ''Also in the fifties.'',
              sv_styles = Some [VStr ''BEE2_CLEAN'', VStr ''BEE2_1950s''] \<rparr>"
    by code_simp
  have pk: "pak_id var_pack_two = ''PAK_TWO''" by (simp add: var_pack_two_def pack_of_def)
  have ov0: "obj_override var_registry ''StyleVar'' ''FixFizz'' = []"
    by (simp add: var_registry_def empty_registry_def)
  from duplicate_declaration[OF a2 b2, of var_pack_two StyleVar False False "[]" Map.empty 0 "[]",
      THEN conjunct2, THEN conjunct1]
  obtain reg1 where r: "read_object var_pack_two ''StyleVar'' True var_registry ?d = Inr reg1"
    "all_obj reg1 = all_obj var_registry"
    "obj_override reg1 ''StyleVar'' ''FixFizz'' = obj_override var_registry ''StyleVar'' ''FixFizz''
       @ [\<lparr> pd_zip_file = pak_zip var_pack_two, pd_id = ''FixFizz'', pd_info = ?d,
             pd_pak_id = pak_id var_pack_two, pd_is_override = True \<rparr>]"
    "load_object StyleVar ''StyleVar'' ''FixFizz'' ?od (obj_override reg1 ''StyleVar'' ''FixFizz'')
       = (case load_object StyleVar ''StyleVar'' ''FixFizz'' ?od (obj_override var_registry ''StyleVar'' ''FixFizz'') of
            Inl e \<Rightarrow> Inl e
          | Inr (key, object) \<Rightarrow>
              (case apply_override StyleVar (po_obj object)
                      \<lparr> pd_zip_file = pak_zip var_pack_two, pd_id = ''FixFizz'', pd_info = ?d,
                        pd_pak_id = pak_id var_pack_two, pd_is_override = True \<rparr> of
                 Inl e \<Rightarrow> Inl e
               | Inr object1 \<Rightarrow> Inr (key, object \<lparr> po_obj := object1 \<rparr>)))"
    by (elim exE conjE)
  from r(3) have q: "map pd_pak_id (obj_override reg1 ''StyleVar'' ''FixFizz'') = [''PAK_TWO'']"
    by (simp add: ov0 pk)
  from r(4) have l: "map_option (\<lambda>r. (po_pak_id (snd r), sv_styles (po_obj (snd r)), sv_desc (po_obj (snd r))))
             (case load_object StyleVar ''StyleVar'' ''FixFizz'' ?od
                     (obj_override reg1 ''StyleVar'' ''FixFizz'') of
                Inl e \<Rightarrow> None | Inr r \<Rightarrow> Some r)
           = Some (''PAK_ONE'', Some [VStr ''BEE2_CLEAN'', VStr ''BEE2_1950s''],
                   ''Fixes fizzlers.'' @ [CHR 0x0A, CHR 0x0A] @ ''Also in the fifties.'')"
    by (simp add: first over)
  from r(1,2) q l have i: "\<exists>reg1. read_object var_pack_two ''StyleVar'' True var_registry ?d = Inr reg1
        \<and> all_obj reg1 = all_obj var_registry
        \<and> map pd_pak_id (obj_override reg1 ''StyleVar'' ''FixFizz'') = [''PAK_TWO'']
        \<and> map_option (\<lambda>r. (po_pak_id (snd r), sv_styles (po_obj (snd r)), sv_desc (po_obj (snd r))))
             (case load_object StyleVar ''StyleVar'' ''FixFizz'' ?od
                     (obj_override reg1 ''StyleVar'' ''FixFizz'') of
                Inl e \<Rightarrow> None | Inr r \<Rightarrow> Some r)
           = Some (''PAK_ONE'', Some [VStr ''BEE2_CLEAN'', VStr ''BEE2_1950s''],
                   ''Fixes fizzlers.'' @ [CHR 0x0A, CHR 0x0A] @ ''Also in the fifties.'')"
    by (intro exI[of _ reg1] conjI)
  show ?thesis by (intro conjI; fact)
qed

text \<open>
  The claim as the spec words it fails in two places. The error is the same whichever
  archive holds the second declaration, so it cannot name the archive; and an id that
  differs from a registered one only in case is taken as new, with no error.
\<close>

theorem duplicate_declaration_counterexample:
  "read_object (pack_of ''PAK_TWO'' []) ''Style'' False first_registry (style_decl ''BEE2_CLEAN'')
     = Inl (DefinedTwice ''BEE2_CLEAN'')
   \<and> read_object (pack_of ''PAK_THREE'' []) ''Style'' False first_registry (style_decl ''BEE2_CLEAN'')
     = Inl (DefinedTwice ''BEE2_CLEAN'')
   \<and> pak_id (pack_of ''PAK_TWO'' []) \<noteq> pak_id (pack_of ''PAK_THREE'' [])
   \<and> casefold ''bee2_clean'' = casefold ''BEE2_CLEAN''
   \<and> (case parse_package [] first_registry (pack_of ''PAK_TWO'' [style_decl ''bee2_clean'']) False False of
         Inl e \<Rightarrow> []
       | Inr (n, reg1) \<Rightarrow> map fst (all_obj reg1 ''Style'')) = [''BEE2_CLEAN'', ''bee2_clean'']"
proof -
  have b: "map_of (all_obj first_registry ''Style'') ''BEE2_CLEAN'' \<noteq> None"
    by (simp add: first_registry_def empty_registry_def)
  have 1: "read_object pack ''Style'' False first_registry (style_decl ''BEE2_CLEAN'')
     = Inl (DefinedTwice ''BEE2_CLEAN'')" for pack
    using b by (simp add: read_object_def obj_id_style_decl)
  have 2: "pak_id (pack_of ''PAK_TWO'' []) \<noteq> pak_id (pack_of ''PAK_THREE'' [])"
    by (simp add: pack_of_def)
  have 3: "casefold ''bee2_clean'' = casefold ''BEE2_CLEAN''"
    by (simp add: casefold_def lower_char_def)
  have 4: "(case parse_package [] first_registry (pack_of ''PAK_TWO'' [style_decl ''bee2_clean'']) False False of
         Inl e \<Rightarrow> []
       | Inr (n, reg1) \<Rightarrow> map fst (all_obj reg1 ''Style'')) = [''BEE2_CLEAN'', ''bee2_clean'']"
    by code_simp
  note 1[of "pack_of ''PAK_TWO'' []"] 1[of "pack_of ''PAK_THREE'' []"]
  then show ?thesis using 2 3 4 by (intro conjI)
qed

section \<open>Export: volumetric regions\<close>

lemma iter_grid_product:
  "iter_grid (x0, y0, z0) (x1, y1, z1) = List.product [x0..x1] (List.product [y0..y1] [z0..z1])"
  by (simp add: iter_grid_def product_concat_map map_concat comp_def)

lemma iter_grid_set:
  "set (iter_grid (x0, y0, z0) (x1, y1, z1))
     = {(x, y, z). x0 \<le> x \<and> x \<le> x1 \<and> y0 \<le> y \<and> y \<le> y1 \<and> z0 \<le> z \<and> z \<le> z1}"
  unfolding iter_grid_product by auto

lemma iter_grid_distinct: "distinct (iter_grid lo hi)"
proof -
  obtain x0 y0 z0 x1 y1 z1 where "lo = (x0, y0, z0)" "hi = (x1, y1, z1)"
    by (cases lo, cases hi) auto
  then show ?thesis by (simp add: iter_grid_product distinct_product)
qed

lemma iter_grid_length:
  "length (iter_grid (x0, y0, z0) (x1, y1, z1))
     = nat (x1 - x0 + 1) * (nat (y1 - y0 + 1) * nat (z1 - z0 + 1))"
  by (simp add: iter_grid_product)

lemma region_grid_points:
  assumes "prop_vec r key1 = (ax, ay, az)" and "prop_vec r key2 = (bx, by, bz)"
  shows "set (region_grid key1 key2 r)
           = {(x, y, z). min ax bx \<le> x \<and> x \<le> max ax bx \<and> min ay by \<le> y \<and> y \<le> max ay by
                         \<and> min az bz \<le> z \<and> z \<le> max az bz}"
    and "distinct (region_grid key1 key2 r)"
    and "length (region_grid key1 key2 r)
           = nat (\<bar>ax - bx\<bar> + 1) * (nat (\<bar>ay - by\<bar> + 1) * nat (\<bar>az - bz\<bar> + 1))"
proof -
  have g: "region_grid key1 key2 r
     = iter_grid (min ax bx, min ay by, min az bz) (max ax bx, max ay by, max az bz)"
    using assms by (simp add: region_grid_def bbox_def)
  show "set (region_grid key1 key2 r)
           = {(x, y, z). min ax bx \<le> x \<and> x \<le> max ax bx \<and> min ay by \<le> y \<and> y \<le> max ay by
                         \<and> min az bz \<le> z \<and> z \<le> max az bz}"
    unfolding g by (rule iter_grid_set)
  show "distinct (region_grid key1 key2 r)" unfolding g by (rule iter_grid_distinct)
  have "max ax bx - min ax bx = \<bar>ax - bx\<bar>" "max ay by - min ay by = \<bar>ay - by\<bar>"
    "max az bz - min az bz = \<bar>az - bz\<bar>" by (simp_all add: max_def min_def)
  then show "length (region_grid key1 key2 r)
           = nat (\<bar>ax - bx\<bar> + 1) * (nat (\<bar>ay - by\<bar> + 1) * nat (\<bar>az - bz\<bar> + 1))"
    unfolding g iter_grid_length by simp
qed

lemma unit_square_grid:
  assumes "prop_vec r key1 = (0, 0, 0)" and "prop_vec r key2 = (1, 1, 0)"
  shows "region_grid key1 key2 r = [(0, 0, 0), (0, 1, 0), (1, 0, 0), (1, 1, 0)]"
proof -
  have "[0..1::int] = [0, 1]" "[0..0::int] = [0]" by (simp_all add: upto.simps)
  then show ?thesis using assms by (simp add: region_grid_def bbox_def iter_grid_def)
qed

lemma remove_last_split:
  assumes "P c" and "\<forall>y \<in> set post. \<not> P y"
  shows "remove_last P (pre @ c # post) = pre @ post"
  using assms by (induction pre) (auto simp: list_ex_iff)

lemma enumerate_tags:
  "(n', c') \<in> set (List.enumerate n cs) \<Longrightarrow> n \<le> n' \<and> n' < n + length cs \<and> c' \<in> set cs"
  by (auto simp: in_set_enumerate_eq)

text \<open>The \<^verbatim>\<open>Volume\<close> loop on a block with one \<^verbatim>\<open>Volume\<close> region.\<close>

lemma volume_body_single:
  assumes ks: "children occu = pre @ v # post" and blk: "has_children occu"
    and v: "named ''Volume'' v"
    and others: "\<forall>c \<in> set pre \<union> set post. \<not> named ''Volume'' c"
  shows "volume_body it (log, None) occu =
           (if contains ''pos1'' v \<and> contains ''pos2'' v
            then ((log, None),
                  set_children occu
                    (pre @ post @ map (volume_entry (del_key ''pos2'' (del_key ''pos1'' (set_name ''Voxel'' v))))
                                      (region_grid ''pos1'' ''pos2'' v)))
            else ((log @ [volume_warning it], None), set_children occu (pre @ post)))"
proof -
  let ?tag = "\<lambda>k :: nat \<times> property. (Some (fst k), snd k)"
  let ?P = "\<lambda>k :: nat option \<times> property. named ''Volume'' (snd k)"
  let ?i = "length pre"
  have en: "List.enumerate 0 (children occu)
      = List.enumerate 0 pre @ (?i, v) # List.enumerate (Suc ?i) post"
    by (simp add: ks enumerate_append_eq)
  have pre_no: "\<forall>k \<in> set (List.enumerate 0 pre). \<not> named ''Volume'' (snd k) \<and> fst k \<noteq> ?i"
    using others by (auto dest!: enumerate_tags)
  have post_no: "\<forall>k \<in> set (List.enumerate (Suc ?i) post). \<not> named ''Volume'' (snd k) \<and> fst k \<noteq> ?i"
    using others by (auto dest!: enumerate_tags)
  have parts: "filter (\<lambda>k. named ''Volume'' (snd k)) (List.enumerate 0 (children occu)) = [(?i, v)]"
    using pre_no post_no v by (simp add: en filter_empty_conv)
  define T where "T = map ?tag (List.enumerate 0 (children occu))"
  define K where "K = map ?tag (List.enumerate 0 pre @ List.enumerate (Suc ?i) post)"
  have T: "T = map ?tag (List.enumerate 0 pre) @ (Some ?i, v) # map ?tag (List.enumerate (Suc ?i) post)"
    by (simp add: T_def en)
  have ex: "list_ex ?P T" using v by (simp add: T list_ex_iff)
  have "remove_last ?P T = map ?tag (List.enumerate 0 pre) @ map ?tag (List.enumerate (Suc ?i) post)"
    unfolding T using post_no v by (intro remove_last_split) auto
  then have rm: "remove_last ?P T = K"
    by (simp add: K_def)
  have snd_K: "map snd K = pre @ post" by (simp add: K_def comp_def map_snd_enumerate)
  have untouched: "map (\<lambda>k. if fst k = Some ?i then (fst k, part) else k) K = K" for part
    unfolding K_def using pre_no post_no by (intro map_idI) auto
  show ?thesis
    unfolding volume_body_def parts T_def[symmetric]
    using ex blk by (simp add: rm untouched snd_K Let_def comp_def)
qed

lemma surface_body_cases:
  "(contains ''subpos1'' r \<and> contains ''subpos2'' r \<longrightarrow>
      surface_body it log r =
        (log, set_children (del_key ''subpos2'' (del_key ''subpos1'' (set_name ''Voxel'' r)))
                (children (del_key ''subpos2'' (del_key ''subpos1'' (set_name ''Voxel'' r)))
                 @ map surface_entry (region_grid ''subpos1'' ''subpos2'' r))))
   \<and> (\<not> (contains ''subpos1'' r \<and> contains ''subpos2'' r) \<longrightarrow>
      surface_body it log r = (log @ [surface_warning it], r))"
  by (auto simp: surface_body_def Let_def)

text \<open>
  One region in its block. A region is expanded to one entry per point of \<open>region_grid\<close>, and these
  points are the integer points of the inclusive box of the two corners, each once; for
  the corners \<open>(0, 0, 0)\<close> and \<open>(1, 1, 0)\<close> they are four. In an \<^verbatim>\<open>OccupiedVoxels\<close> block
  with one \<^verbatim>\<open>Volume\<close> region, the region is taken out and one copy of it per point,
  renamed \<^verbatim>\<open>Voxel\<close> and carrying \<^verbatim>\<open>Pos\<close>, is appended; a \<^verbatim>\<open>SurfaceVolume\<close> region is
  renamed \<^verbatim>\<open>Voxel\<close> and gets one \<^verbatim>\<open>Surface\<close> block per point. A region that lacks a
  corner key adds a warning to the log and no entry: the \<^verbatim>\<open>SurfaceVolume\<close> region stays
  as it is, the \<^verbatim>\<open>Volume\<close> region is taken out. In each case the other children of the
  block stay as they are, and no exception is raised.
\<close>

theorem volumetric_expansion:
  assumes "children occu = pre @ v # post" and "has_children occu"
    and "named ''Volume'' v"
    and "\<not> list_ex (named ''Volume'') (pre @ post)"
  shows "(contains ''pos1'' v \<and> contains ''pos2'' v \<longrightarrow>
      volume_body it (log, None) occu =
        ((log, None),
         set_children occu
           (pre @ post @ map (volume_entry (del_key ''pos2'' (del_key ''pos1'' (set_name ''Voxel'' v))))
                             (region_grid ''pos1'' ''pos2'' v))))
   \<and> (\<not> (contains ''pos1'' v \<and> contains ''pos2'' v) \<longrightarrow>
      volume_body it (log, None) occu = ((log @ [volume_warning it], None), set_children occu (pre @ post)))
   \<and> (contains ''subpos1'' r \<and> contains ''subpos2'' r \<longrightarrow>
      surface_body it log r =
        (log, set_children (del_key ''subpos2'' (del_key ''subpos1'' (set_name ''Voxel'' r)))
                (children (del_key ''subpos2'' (del_key ''subpos1'' (set_name ''Voxel'' r)))
                 @ map surface_entry (region_grid ''subpos1'' ''subpos2'' r))))
   \<and> (\<not> (contains ''subpos1'' r \<and> contains ''subpos2'' r) \<longrightarrow>
      surface_body it log r = (log @ [surface_warning it], r))
   \<and> distinct (region_grid key1 key2 q)
   \<and> set (region_grid key1 key2 q) =
       {(x, y, z).
          min (fst (prop_vec q key1)) (fst (prop_vec q key2)) \<le> x
          \<and> x \<le> max (fst (prop_vec q key1)) (fst (prop_vec q key2))
          \<and> min (fst (snd (prop_vec q key1))) (fst (snd (prop_vec q key2))) \<le> y
          \<and> y \<le> max (fst (snd (prop_vec q key1))) (fst (snd (prop_vec q key2)))
          \<and> min (snd (snd (prop_vec q key1))) (snd (snd (prop_vec q key2))) \<le> z
          \<and> z \<le> max (snd (snd (prop_vec q key1))) (snd (snd (prop_vec q key2)))}
   \<and> (prop_vec q key1 = (0, 0, 0) \<and> prop_vec q key2 = (1, 1, 0) \<longrightarrow>
        region_grid key1 key2 q = [(0, 0, 0), (0, 1, 0), (1, 0, 0), (1, 1, 0)])"
proof -
  from assms(4) have others: "\<forall>c \<in> set pre \<union> set post. \<not> named ''Volume'' c"
    by (auto simp: list_ex_iff)
  note vol = volume_body_single[OF assms(1,2,3) others, of it log]
  obtain ax ay az where a: "prop_vec q key1 = (ax, ay, az)" by (cases "prop_vec q key1") auto
  obtain bx "by" bz where b: "prop_vec q key2 = (bx, by, bz)" by (cases "prop_vec q key2") auto
  note grid = region_grid_points[OF a b]
  have pts: "set (region_grid key1 key2 q) =
       {(x, y, z).
          min (fst (prop_vec q key1)) (fst (prop_vec q key2)) \<le> x
          \<and> x \<le> max (fst (prop_vec q key1)) (fst (prop_vec q key2))
          \<and> min (fst (snd (prop_vec q key1))) (fst (snd (prop_vec q key2))) \<le> y
          \<and> y \<le> max (fst (snd (prop_vec q key1))) (fst (snd (prop_vec q key2)))
          \<and> min (snd (snd (prop_vec q key1))) (snd (snd (prop_vec q key2))) \<le> z
          \<and> z \<le> max (snd (snd (prop_vec q key1))) (snd (snd (prop_vec q key2)))}"
    unfolding grid(1) a b by simp
  have four: "prop_vec q key1 = (0, 0, 0) \<and> prop_vec q key2 = (1, 1, 0) \<longrightarrow>
        region_grid key1 key2 q = [(0, 0, 0), (0, 1, 0), (1, 0, 0), (1, 1, 0)]"
    using unit_square_grid[of q key1 key2] by blast
  have v1: "contains ''pos1'' v \<and> contains ''pos2'' v \<longrightarrow>
      volume_body it (log, None) occu =
        ((log, None),
         set_children occu
           (pre @ post @ map (volume_entry (del_key ''pos2'' (del_key ''pos1'' (set_name ''Voxel'' v))))
                             (region_grid ''pos1'' ''pos2'' v)))"
    using vol by simp
  have v2: "\<not> (contains ''pos1'' v \<and> contains ''pos2'' v) \<longrightarrow>
      volume_body it (log, None) occu = ((log @ [volume_warning it], None), set_children occu (pre @ post))"
    using vol by simp
  note s = surface_body_cases[of r it log]
  show ?thesis
    by (intro conjI) (rule v1, rule v2, rule s[THEN conjunct1], rule s[THEN conjunct2],
        rule grid(2), rule pts, rule four)
qed

theorem volumetric_expansion_witness:
  "children (Block (Some ''OccupiedVoxels'') [kept_voxel, good_volume]) = [kept_voxel] @ good_volume # []
   \<and> has_children (Block (Some ''OccupiedVoxels'') [kept_voxel, good_volume])
   \<and> named ''Volume'' good_volume
   \<and> \<not> list_ex (named ''Volume'') ([kept_voxel] @ [])
   \<and> contains ''pos1'' good_volume \<and> contains ''pos2'' good_volume
   \<and> prop_vec good_volume ''pos1'' = (0, 0, 0) \<and> prop_vec good_volume ''pos2'' = (1, 1, 0)
   \<and> volume_body ''ITEM_CUBE'' ([], None) (Block (Some ''OccupiedVoxels'') [kept_voxel, good_volume])
       = (([], None),
          Block (Some ''OccupiedVoxels'')
            [kept_voxel,
             Block (Some ''Voxel'') [Leaf (Some ''Pos'') ''0 0 0''],
             Block (Some ''Voxel'') [Leaf (Some ''Pos'') ''0 1 0''],
             Block (Some ''Voxel'') [Leaf (Some ''Pos'') ''1 0 0''],
             Block (Some ''Voxel'') [Leaf (Some ''Pos'') ''1 1 0'']])
   \<and> named ''Volume'' bad_volume
   \<and> \<not> (contains ''pos1'' bad_volume \<and> contains ''pos2'' bad_volume)
   \<and> volume_body ''ITEM_CUBE'' ([], None) (Block (Some ''OccupiedVoxels'') [kept_voxel, bad_volume])
       = (([''Item ITEM_CUBE has invalid OccupiedVoxels part (needs Pos1 and Pos2)!''], None),
          Block (Some ''OccupiedVoxels'') [kept_voxel])
   \<and> contains ''subpos1'' good_surface \<and> contains ''subpos2'' good_surface
   \<and> surface_body ''ITEM_CUBE'' [] good_surface
       = ([], Block (Some ''Voxel'')
                [Leaf (Some ''Normal'') ''0 0 1'',
                 Block (Some ''Surface'') [Leaf (Some ''Pos'') ''0 0 0''],
                 Block (Some ''Surface'') [Leaf (Some ''Pos'') ''0 1 0''],
                 Block (Some ''Surface'') [Leaf (Some ''Pos'') ''1 0 0''],
                 Block (Some ''Surface'') [Leaf (Some ''Pos'') ''1 1 0'']])
   \<and> \<not> (contains ''subpos1'' bad_surface \<and> contains ''subpos2'' bad_surface)
   \<and> surface_body ''ITEM_CUBE'' [] bad_surface
       = ([''Item ITEM_CUBE has invalid OccupiedVoxels part (needs SubPos1 and SubPos2)!''], bad_surface)"
proof -
  let ?good = "Block (Some ''OccupiedVoxels'') [kept_voxel, good_volume]"
  let ?bad = "Block (Some ''OccupiedVoxels'') [kept_voxel, bad_volume]"
  have h1: "children ?good = [kept_voxel] @ good_volume # []" by (simp add: children_def)
  have h1b: "children ?bad = [kept_voxel] @ bad_volume # []" by (simp add: children_def)
  have h2: "has_children ?good" "has_children ?bad" by (simp_all add: has_children_def)
  have h3: "named ''Volume'' good_volume" "named ''Volume'' bad_volume" by code_simp+
  have h4: "\<not> list_ex (named ''Volume'') ([kept_voxel] @ [])" by code_simp
  have c1: "contains ''pos1'' good_volume" and c2: "contains ''pos2'' good_volume" by code_simp+
  have p1: "prop_vec good_volume ''pos1'' = (0, 0, 0)"
    and p2: "prop_vec good_volume ''pos2'' = (1, 1, 0)" by code_simp+
  have b1: "\<not> (contains ''pos1'' bad_volume \<and> contains ''pos2'' bad_volume)" by code_simp
  have s1: "contains ''subpos1'' good_surface" and s2: "contains ''subpos2'' good_surface"
    by code_simp+
  have s3: "\<not> (contains ''subpos1'' bad_surface \<and> contains ''subpos2'' bad_surface)" by code_simp
  note good = volumetric_expansion[where it = "''ITEM_CUBE''" and log = "[]" and r = bad_surface
      and q = good_volume and ?key1.0 = "''pos1''" and ?key2.0 = "''pos2''", OF h1 h2(1) h3(1) h4]
  note bad = volumetric_expansion[where it = "''ITEM_CUBE''" and log = "[]" and r = good_surface
      and q = good_surface and ?key1.0 = "''subpos1''" and ?key2.0 = "''subpos2''", OF h1b h2(2) h3(2) h4]
  have v1: "set_children ?good
           ([kept_voxel] @ [] @ map (volume_entry (del_key ''pos2'' (del_key ''pos1'' (set_name ''Voxel'' good_volume))))
                             (region_grid ''pos1'' ''pos2'' good_volume))
      = Block (Some ''OccupiedVoxels'')
            [kept_voxel,
             Block (Some ''Voxel'') [Leaf (Some ''Pos'') ''0 0 0''],
             Block (Some ''Voxel'') [Leaf (Some ''Pos'') ''0 1 0''],
             Block (Some ''Voxel'') [Leaf (Some ''Pos'') ''1 0 0''],
             Block (Some ''Voxel'') [Leaf (Some ''Pos'') ''1 1 0'']]" by code_simp
  from good[THEN conjunct1, THEN mp, OF conjI[OF c1 c2]]
  have r1: "volume_body ''ITEM_CUBE'' ([], None) ?good
       = (([], None),
          Block (Some ''OccupiedVoxels'')
            [kept_voxel,
             Block (Some ''Voxel'') [Leaf (Some ''Pos'') ''0 0 0''],
             Block (Some ''Voxel'') [Leaf (Some ''Pos'') ''0 1 0''],
             Block (Some ''Voxel'') [Leaf (Some ''Pos'') ''1 0 0''],
             Block (Some ''Voxel'') [Leaf (Some ''Pos'') ''1 1 0'']])"
    unfolding v1 .
  have v2: "([] @ [volume_warning ''ITEM_CUBE''], None :: error option)
      = ([''Item ITEM_CUBE has invalid OccupiedVoxels part (needs Pos1 and Pos2)!''], None)"
    "set_children ?bad ([kept_voxel] @ []) = Block (Some ''OccupiedVoxels'') [kept_voxel]"
    by code_simp+
  from bad[THEN conjunct2, THEN conjunct1, THEN mp, OF b1]
  have r2: "volume_body ''ITEM_CUBE'' ([], None) ?bad
       = (([''Item ITEM_CUBE has invalid OccupiedVoxels part (needs Pos1 and Pos2)!''], None),
          Block (Some ''OccupiedVoxels'') [kept_voxel])"
    unfolding v2 .
  have e2: "set_children (del_key ''subpos2'' (del_key ''subpos1'' (set_name ''Voxel'' good_surface)))
                (children (del_key ''subpos2'' (del_key ''subpos1'' (set_name ''Voxel'' good_surface)))
                 @ map surface_entry (region_grid ''subpos1'' ''subpos2'' good_surface))
      = Block (Some ''Voxel'')
                [Leaf (Some ''Normal'') ''0 0 1'',
                 Block (Some ''Surface'') [Leaf (Some ''Pos'') ''0 0 0''],
                 Block (Some ''Surface'') [Leaf (Some ''Pos'') ''0 1 0''],
                 Block (Some ''Surface'') [Leaf (Some ''Pos'') ''1 0 0''],
                 Block (Some ''Surface'') [Leaf (Some ''Pos'') ''1 1 0'']]" by code_simp
  from bad[THEN conjunct2, THEN conjunct2, THEN conjunct1, THEN mp, OF conjI[OF s1 s2]]
  have r3: "surface_body ''ITEM_CUBE'' [] good_surface
       = ([], Block (Some ''Voxel'')
                [Leaf (Some ''Normal'') ''0 0 1'',
                 Block (Some ''Surface'') [Leaf (Some ''Pos'') ''0 0 0''],
                 Block (Some ''Surface'') [Leaf (Some ''Pos'') ''0 1 0''],
                 Block (Some ''Surface'') [Leaf (Some ''Pos'') ''1 0 0''],
                 Block (Some ''Surface'') [Leaf (Some ''Pos'') ''1 1 0'']])"
    unfolding e2 .
  have v4: "[] @ [surface_warning ''ITEM_CUBE'']
      = [''Item ITEM_CUBE has invalid OccupiedVoxels part (needs SubPos1 and SubPos2)!'']"
    by code_simp
  from good[THEN conjunct2, THEN conjunct2, THEN conjunct2, THEN conjunct1, THEN mp, OF s3]
  have r4: "surface_body ''ITEM_CUBE'' [] bad_surface
       = ([''Item ITEM_CUBE has invalid OccupiedVoxels part (needs SubPos1 and SubPos2)!''], bad_surface)"
    unfolding v4 .
  show ?thesis
    by (intro conjI) (rule h1, rule h2(1), rule h3(1), rule h4, rule c1, rule c2, rule p1, rule p2,
        rule r1, rule h3(2), rule b1, rule r2, rule s1, rule s2, rule r3, rule s3, rule r4)
qed


text \<open>
  Claim C6. \<^verbatim>\<open>del occu_voxels['Volume']\<close> takes out the last \<^verbatim>\<open>Volume\<close> child of the
  block, not the region at hand, and the region at hand is renamed \<^verbatim>\<open>Voxel\<close> where it
  stands. So with a second \<^verbatim>\<open>Volume\<close> region after one that has both corners, the second
  round finds no \<^verbatim>\<open>Volume\<close> child to delete and \<^verbatim>\<open>_get_export_data\<close> ends with
  \<^verbatim>\<open>IndexError\<close>: nothing is exported, for either region. With one region in the
  block the export is as the claim says: four \<^verbatim>\<open>Voxel\<close> entries for the corners
  \<open>(0, 0, 0)\<close> and \<open>(1, 1, 0)\<close>; a warning and no entry for a region that lacks a corner;
  the other children of the block as they were.
\<close>

theorem second_volume_region_raises:
  "get_export_data (voxel_item [kept_voxel, good_volume, second_volume]) []
       ''VER_DEFAULT'' ''BEE2_CLEAN'' []
     = Inl (IndexError ''Volume'')
   \<and> exported_voxels (get_export_data (voxel_item [kept_voxel, good_volume]) []
       ''VER_DEFAULT'' ''BEE2_CLEAN'' [])
     = Inr ([kept_voxel,
             Block (Some ''Voxel'') [Leaf (Some ''Pos'') ''0 0 0''],
             Block (Some ''Voxel'') [Leaf (Some ''Pos'') ''0 1 0''],
             Block (Some ''Voxel'') [Leaf (Some ''Pos'') ''1 0 0''],
             Block (Some ''Voxel'') [Leaf (Some ''Pos'') ''1 1 0'']], [])
   \<and> exported_voxels (get_export_data (voxel_item [kept_voxel, bad_volume]) []
       ''VER_DEFAULT'' ''BEE2_CLEAN'' [])
     = Inr ([kept_voxel], [volume_warning ''ITEM_CUBE''])
   \<and> exported_voxels (get_export_data (voxel_item [kept_voxel, good_surface, bad_surface]) []
       ''VER_DEFAULT'' ''BEE2_CLEAN'' [])
     = Inr ([kept_voxel,
             Block (Some ''Voxel'')
               [Leaf (Some ''Normal'') ''0 0 1'',
                Block (Some ''Surface'') [Leaf (Some ''Pos'') ''0 0 0''],
                Block (Some ''Surface'') [Leaf (Some ''Pos'') ''0 1 0''],
                Block (Some ''Surface'') [Leaf (Some ''Pos'') ''1 0 0''],
                Block (Some ''Surface'') [Leaf (Some ''Pos'') ''1 1 0'']],
             bad_surface], [surface_warning ''ITEM_CUBE''])"
  by code_simp

section \<open>Export: the palette\<close>

lemma palette_items_snoc:
  "palette_items it (pl @ [(it', sub)]) =
     (if it' = it then AList.update sub (length pl) (palette_items it pl) else palette_items it pl)"
  by (simp add: palette_items_def enumerate_append_eq)

lemma palette_items_lookup:
  "(map_of (palette_items it pl) sub = None \<longleftrightarrow> (it, sub) \<notin> set pl)
   \<and> (\<forall>k. map_of (palette_items it pl) sub = Some k \<longrightarrow> k < length pl \<and> pl ! k = (it, sub))"
proof (induction pl rule: rev_induct)
  case Nil
  then show ?case by (simp add: palette_items_def)
next
  case (snoc x pl)
  obtain it' sub' where x: "x = (it', sub')" by (cases x)
  show ?case
    using snoc.IH
    by (auto simp: x palette_items_snoc update_conv' nth_append less_Suc_eq)
qed

lemma map_accum_skip:
  assumes "\<And>s c. c \<in> set xs \<Longrightarrow> f s c = (s, c)"
  shows "map_accum f s xs = (s, xs)"
  using assms by (induction xs arbitrary: s) auto

lemma map_accum_append:
  "map_accum f s (xs @ ys) =
     (case map_accum f s xs of (s1, xs1) \<Rightarrow>
        case map_accum f s1 ys of (s2, ys1) \<Rightarrow> (s2, xs1 @ ys1))"
  by (induction xs arbitrary: s) (auto split: prod.splits)

lemma pvalue_mk_property [simp]: "pvalue (mk_property n v) = v"
  by (cases v) (simp_all add: pvalue_def mk_property_def)

lemma real_name_mk_property [simp]: "real_name (mk_property n v) = n"
  by (cases v) (simp_all add: mk_property_def)

lemma named_mk_property [simp]: "named key (mk_property (real_name c) v) = named key c"
  by (simp add: named_def pname_def)

lemma named_self [simp]: "named key (mk_property (Some key) v)"
  by (simp add: named_def pname_def)

lemma pname_set_children [simp]: "pname (set_children p ks) = pname p"
  by (simp add: pname_def set_children_def)

lemma pname_set_item [simp]: "pname (set_item key v p) = pname p"
  by (simp add: set_item_def append_child_def)

text \<open>After \<^verbatim>\<open>prop[key] = value\<close>, \<^verbatim>\<open>prop[key]\<close> is the value.\<close>

lemma get_set_item: "get_default (set_item key v p) key d = Some v"
proof (cases "contains key p")
  case True
  then have "list_ex (named key) (children p)" by (simp add: contains_def)
  from last_split[OF this] obtain pre c post where
    sp: "children p = pre @ c # post" "named key c" "\<forall>y \<in> set post. \<not> named key y" by blast
  let ?c = "mk_property (real_name c) v"
  have "children (set_item key v p) = pre @ ?c # post"
    using True update_last_split[OF sp(2,3), of "\<lambda>c. mk_property (real_name c) v" pre] sp(1)
    by (simp add: set_item_def)
  moreover have "named key ?c" using sp(2) by simp
  ultimately have "find_key key (set_item key v p) = Some ?c"
    using find_rev_split[of "named key" ?c post pre] sp(3) by (simp add: find_key_def)
  then show ?thesis by (simp add: get_default_def)
next
  case False
  have "find_key key (set_item key v p) = Some (mk_property (Some key) v)"
    using False by (simp add: set_item_def append_child_def find_key_def)
  then show ?thesis by (simp add: get_default_def)
qed

lemma place_palette_position:
  assumes "place_palette pal item_data pos c = Inr c1"
  shows "get_default c1 ''Position'' None = Some (VStr (grid_position pos)) \<and> pname c1 = pname c"
  using assms
  by (auto simp: place_palette_def Let_def get_set_item split: if_splits sum.splits option.splits)

lemma place_children_result:
  assumes "place_children pal item_data pos cs = Inr cs1"
  shows "length cs1 = length cs
    \<and> (\<forall>i < length cs. if is_palette (cs ! i)
          then is_palette (cs1 ! i)
               \<and> get_default (cs1 ! i) ''Position'' None = Some (VStr (grid_position pos))
          else cs1 ! i = cs ! i)"
  using assms
proof (induction cs arbitrary: cs1)
  case Nil
  then show ?case by simp
next
  case (Cons c cs)
  from Cons.prems obtain c1 rest where
    c1: "(if is_palette c then place_palette pal item_data pos c else Inr c) = Inr c1"
    and rest: "place_children pal item_data pos cs = Inr rest" and eq: "cs1 = c1 # rest"
    by (auto split: sum.splits)
  have hd: "if is_palette c
          then is_palette c1 \<and> get_default c1 ''Position'' None = Some (VStr (grid_position pos))
          else c1 = c"
    using c1 place_palette_position[of pal item_data pos c c1]
    by (auto simp: is_palette_def split: if_splits)
  from Cons.IH[OF rest] hd eq show ?case
    by (auto simp: nth_Cons split: nat.splits)
qed

lemma strip_palette_children:
  "children (strip_palette s) = remove_first is_palette (children s)
   \<and> pname (strip_palette s) = pname s"
proof -
  have "\<not> list_ex P xs \<Longrightarrow> remove_first P xs = xs" for P and xs :: "property list"
    by (induction xs) auto
  then show ?thesis by (auto simp: strip_palette_def)
qed

lemma remove_first_others:
  "filter (\<lambda>c. \<not> P c) (remove_first P xs) = filter (\<lambda>c. \<not> P c) xs"
  by (induction xs) auto

text \<open>
  The subtype loop on an editor block whose one \<^verbatim>\<open>Editor\<close> block has two subtypes
  (among children of other names), the first of them not on the palette.
\<close>

lemma export_palette_two_subtypes:
  assumes ed: "named ''Editor'' (Block e (a @ s0 # b @ s1 # c))"
    and others: "\<not> list_ex (named ''Editor'') (pre @ post)"
    and s0: "named ''Subtype'' s0" and s1: "named ''Subtype'' s1"
    and nosub: "\<not> list_ex (named ''Subtype'') (a @ b @ c)"
    and unplaced: "map_of pal 0 = None"
  shows "export_palette pal v (Block n (pre @ Block e (a @ s0 # b @ s1 # c) # post)) =
           (case export_subtype pal v (Suc 0) s1 of
              Inl err \<Rightarrow> Inl err
            | Inr s1' \<Rightarrow> Inr (Block n (pre @ Block e (a @ strip_palette s0 # b @ s1' # c) # post)))"
proof -
  let ?body = "subtype_body pal v"
  let ?G = "\<lambda>s1 c. if \<not> named ''Subtype'' c then (s1, c)
                    else if ([]::string list) = [] then ?body s1 c
                    else if has_children c then visit_all [] ?body s1 c
                    else (s1, c)"
  let ?F = "\<lambda>s1 c. if \<not> named ''Editor'' c then (s1, c)
                    else if [''Subtype''] = [] then ?body s1 c
                    else if has_children c then visit_all [''Subtype''] ?body s1 c
                    else (s1, c)"
  have b0: "?body (0, None) s0 = ((Suc 0, None), strip_palette s0)"
    using unplaced by (simp add: subtype_body_def export_subtype_def)
  have inner: "visit_all [''Subtype''] ?body (0, None) (Block e (a @ s0 # b @ s1 # c)) =
      (case export_subtype pal v (Suc 0) s1 of
         Inl err \<Rightarrow> ((Suc 0, Some err), Block e (a @ strip_palette s0 # b @ s1 # c))
       | Inr s1' \<Rightarrow> ((Suc (Suc 0), None), Block e (a @ strip_palette s0 # b @ s1' # c)))"
  proof -
    define G where "G = ?G"
    have skip: "map_accum G s xs = (s, xs)" if "set xs \<subseteq> set (a @ b @ c)" for s xs
      using nosub that unfolding G_def by (intro map_accum_skip) (auto simp: list_ex_iff)
    have sa: "map_accum G s a = (s, a)" and sb: "map_accum G s b = (s, b)"
      and sc: "map_accum G s c = (s, c)" for s
      using skip[of a s] skip[of b s] skip[of c s] by auto
    have g0: "G (0, None) s0 = ((Suc 0, None), strip_palette s0)" using s0 b0 by (simp add: G_def)
    have g1: "G (Suc 0, None) s1 =
        (case export_subtype pal v (Suc 0) s1 of
           Inl err \<Rightarrow> ((Suc 0, Some err), s1)
         | Inr s1' \<Rightarrow> ((Suc (Suc 0), None), s1'))"
      using s1 by (simp add: G_def subtype_body_def split: sum.splits)
    have run: "map_accum G (0, None) (a @ s0 # b @ s1 # c) =
        (case export_subtype pal v (Suc 0) s1 of
           Inl err \<Rightarrow> ((Suc 0, Some err), a @ strip_palette s0 # b @ s1 # c)
         | Inr s1' \<Rightarrow> ((Suc (Suc 0), None), a @ strip_palette s0 # b @ s1' # c))"
      by (simp add: map_accum_append sa sb sc g0 g1 split: sum.splits)
    have "visit_all [''Subtype''] ?body (0, None) (Block e (a @ s0 # b @ s1 # c))
        = (case map_accum G (0, None) (a @ s0 # b @ s1 # c) of (s2, ks2) \<Rightarrow> (s2, Block e ks2))"
      by (simp add: G_def)
    then show ?thesis unfolding run by (simp split: sum.splits)
  qed
  have skip_pre: "map_accum ?F s pre = (s, pre)" for s
    using others by (intro map_accum_skip) (auto simp: list_ex_iff)
  have skip_post: "map_accum ?F s post = (s, post)" for s
    using others by (intro map_accum_skip) (auto simp: list_ex_iff)
  have mid: "?F (0, None) (Block e (a @ s0 # b @ s1 # c)) = visit_all [''Subtype''] ?body (0, None) (Block e (a @ s0 # b @ s1 # c))"
    using ed by (simp add: has_children_def)
  have whole: "visit_all [''Editor'', ''Subtype''] ?body (0, None) (Block n (pre @ Block e (a @ s0 # b @ s1 # c) # post))
      = (case ?F (0, None) (Block e (a @ s0 # b @ s1 # c)) of (s2, c2) \<Rightarrow> (s2, Block n (pre @ c2 # post)))"
    by (simp add: map_accum_append skip_pre skip_post split: prod.splits)
  have "visit_all [''Editor'', ''Subtype''] ?body (0, None) (Block n (pre @ Block e (a @ s0 # b @ s1 # c) # post))
      = (case export_subtype pal v (Suc 0) s1 of
           Inl err \<Rightarrow> ((Suc 0, Some err), Block n (pre @ Block e (a @ strip_palette s0 # b @ s1 # c) # post))
         | Inr s1' \<Rightarrow> ((Suc (Suc 0), None), Block n (pre @ Block e (a @ strip_palette s0 # b @ s1' # c) # post)))"
    unfolding whole mid inner using ed by (simp add: has_children_def split: sum.splits)
  then show ?thesis
    unfolding export_palette_def by (simp split: sum.splits)
qed

text \<open>
  Claim C7, as the code has it. The item's editor block has one \<^verbatim>\<open>Editor\<close> block with two
  subtypes, and of the two only subtype 1 is on the palette. When the export of the
  palette succeeds, the \<^verbatim>\<open>SubType\<close> block of subtype 0 is still there: it has lost its
  first \<^verbatim>\<open>Palette\<close> block and nothing else. In subtype 1 every \<^verbatim>\<open>Palette\<close> block has
  its \<^verbatim>\<open>Position\<close> set to \<^verbatim>\<open>"x y 0"\<close> with \<open>x = k mod 4\<close> and \<open>y = k div 4\<close>, where
  \<open>k\<close> is the place of the subtype in the palette list; its other children are unchanged.
\<close>

theorem export_only_second_subtype_placed:
  assumes ed: "named ''Editor'' (Block e (a @ s0 # b @ s1 # c))"
    and others: "\<not> list_ex (named ''Editor'') (pre @ post)"
    and s0: "named ''Subtype'' s0" and s1: "named ''Subtype'' s1"
    and nosub: "\<not> list_ex (named ''Subtype'') (a @ b @ c)"
    and unplaced: "(it, 0) \<notin> set pal_list" and placed: "(it, Suc 0) \<in> set pal_list"
    and ok: "export_palette (palette_items it pal_list) v (Block n (pre @ Block e (a @ s0 # b @ s1 # c) # post)) = Inr ed1"
  shows "\<exists>k s1'. k < length pal_list \<and> pal_list ! k = (it, Suc 0)
    \<and> ed1 = Block n (pre @ Block e (a @ strip_palette s0 # b @ s1' # c) # post)
    \<and> pname (strip_palette s0) = pname s0
    \<and> children (strip_palette s0) = remove_first is_palette (children s0)
    \<and> filter (\<lambda>c. \<not> is_palette c) (children (strip_palette s0)) = filter (\<lambda>c. \<not> is_palette c) (children s0)
    \<and> pname s1' = pname s1
    \<and> length (children s1') = length (children s1)
    \<and> (\<forall>i < length (children s1).
          if is_palette (children s1 ! i)
          then is_palette (children s1' ! i)
               \<and> get_default (children s1' ! i) ''Position'' None
                   = Some (VStr (str_nat (k mod 4) @ '' '' @ str_nat (k div 4) @ '' 0''))
          else children s1' ! i = children s1 ! i)"
proof -
  let ?pal = "palette_items it pal_list"
  from palette_items_lookup[of it pal_list 0] unplaced have u: "map_of ?pal 0 = None" by simp
  from palette_items_lookup[of it pal_list "Suc 0"] placed
  obtain k where k: "map_of ?pal (Suc 0) = Some k" "k < length pal_list" "pal_list ! k = (it, Suc 0)"
    by (cases "map_of ?pal (Suc 0)") auto
  from ok export_palette_two_subtypes[OF ed others s0 s1 nosub u, of v n]
  obtain s1' where r: "export_subtype ?pal v (Suc 0) s1 = Inr s1'"
    "ed1 = Block n (pre @ Block e (a @ strip_palette s0 # b @ s1' # c) # post)"
    by (auto split: sum.splits)
  have sec: "pname s1' = pname s1 \<and> length (children s1') = length (children s1)
    \<and> (\<forall>i < length (children s1).
          if is_palette (children s1 ! i)
          then is_palette (children s1' ! i)
               \<and> get_default (children s1' ! i) ''Position'' None = Some (VStr (grid_position k))
          else children s1' ! i = children s1 ! i)"
  proof (cases "has_children s1")
    case True
    with r(1) k(1) obtain cs where cs: "place_children ?pal v k (children s1) = Inr cs"
      "s1' = set_children s1 cs"
      by (auto simp: export_subtype_def split: sum.splits)
    from place_children_result[OF cs(1)] cs(2) show ?thesis by simp
  next
    case False
    with r(1) k(1) have "s1' = s1" by (simp add: export_subtype_def)
    moreover from False have "children s1 = []"
      by (cases s1) (simp_all add: has_children_def children_def)
    ultimately show ?thesis by simp
  qed
  from k(2,3) r(2) sec strip_palette_children[of s0] remove_first_others[of is_palette "children s0"]
  show ?thesis
    unfolding grid_position_def by (intro exI[of _ k] exI[of _ s1']) simp
qed

theorem export_only_second_subtype_placed_witness:
  "named ''Editor'' (Block (Some ''Editor'')
      ([] @ cube_subtype # [] @ sphere_subtype # [Leaf (Some ''MovementHandle'') ''HANDLE_4_DIRECTIONS'']))
   \<and> \<not> list_ex (named ''Editor'')
        ([Leaf (Some ''Type'') ''ITEM_CUBE''] @
         [Block (Some ''Exporting'')
            [Block (Some ''Instances'') [],
             Block (Some ''OccupiedVoxels'') [kept_voxel, good_volume, bad_surface]]])
   \<and> named ''Subtype'' cube_subtype \<and> named ''Subtype'' sphere_subtype
   \<and> \<not> list_ex (named ''Subtype'') ([] @ [] @ [Leaf (Some ''MovementHandle'') ''HANDLE_4_DIRECTIONS''])
   \<and> (''ITEM_CUBE'', 0) \<notin> set some_palette
   \<and> (''ITEM_CUBE'', Suc 0) \<in> set some_palette
   \<and> export_palette (palette_items ''ITEM_CUBE'' some_palette) cube_variant
        (set_item ''type'' (VStr ''ITEM_CUBE'') cube_editor)
       = Inr (Block (Some ''Item'')
               [Leaf (Some ''Type'') ''ITEM_CUBE'',
                Block (Some ''Editor'')
                  [Block (Some ''SubType'') [Leaf (Some ''Name'') ''Cube'', Block (Some ''Sounds'') []],
                   Block (Some ''SubType'')
                     [Leaf (Some ''Name'') ''Sphere'',
                      Block (Some ''Palette'')
                        [Leaf (Some ''Tooltip'') ''SPHERE'',
                         Leaf (Some ''Image'') ''palette/sphere.png'',
                         Leaf (Some ''Position'') ''1 1 0'']],
                   Leaf (Some ''MovementHandle'') ''HANDLE_4_DIRECTIONS''],
                Block (Some ''Exporting'')
                  [Block (Some ''Instances'') [],
                   Block (Some ''OccupiedVoxels'') [kept_voxel, good_volume, bad_surface]]])
   \<and> some_palette ! 5 = (''ITEM_CUBE'', Suc 0)
   \<and> strip_palette cube_subtype
       = Block (Some ''SubType'') [Leaf (Some ''Name'') ''Cube'', Block (Some ''Sounds'') []]"
proof -
  let ?mh = "Leaf (Some ''MovementHandle'') ''HANDLE_4_DIRECTIONS''"
  let ?pre = "[Leaf (Some ''Type'') ''ITEM_CUBE'']"
  let ?post = "[Block (Some ''Exporting'')
            [Block (Some ''Instances'') [],
             Block (Some ''OccupiedVoxels'') [kept_voxel, good_volume, bad_surface]]]"
  let ?out = "Block (Some ''Item'')
               [Leaf (Some ''Type'') ''ITEM_CUBE'',
                Block (Some ''Editor'')
                  [Block (Some ''SubType'') [Leaf (Some ''Name'') ''Cube'', Block (Some ''Sounds'') []],
                   Block (Some ''SubType'')
                     [Leaf (Some ''Name'') ''Sphere'',
                      Block (Some ''Palette'')
                        [Leaf (Some ''Tooltip'') ''SPHERE'',
                         Leaf (Some ''Image'') ''palette/sphere.png'',
                         Leaf (Some ''Position'') ''1 1 0'']],
                   ?mh],
                Block (Some ''Exporting'')
                  [Block (Some ''Instances'') [],
                   Block (Some ''OccupiedVoxels'') [kept_voxel, good_volume, bad_surface]]]"
  have a: "named ''Editor'' (Block (Some ''Editor'') ([] @ cube_subtype # [] @ sphere_subtype # [?mh]))"
    by code_simp
  have b: "\<not> list_ex (named ''Editor'') (?pre @ ?post)" by code_simp
  have c: "named ''Subtype'' cube_subtype" and d: "named ''Subtype'' sphere_subtype" by code_simp+
  have e: "\<not> list_ex (named ''Subtype'') ([] @ [] @ [?mh])" by code_simp
  have f: "(''ITEM_CUBE'', 0) \<notin> set some_palette" by code_simp
  have g: "(''ITEM_CUBE'', Suc 0) \<in> set some_palette" by code_simp
  have shape: "set_item ''type'' (VStr ''ITEM_CUBE'') cube_editor
      = Block (Some ''Item'')
          (?pre @ Block (Some ''Editor'') ([] @ cube_subtype # [] @ sphere_subtype # [?mh]) # ?post)"
    by code_simp
  have run: "export_palette (palette_items ''ITEM_CUBE'' some_palette) cube_variant
        (Block (Some ''Item'')
          (?pre @ Block (Some ''Editor'') ([] @ cube_subtype # [] @ sphere_subtype # [?mh]) # ?post))
       = Inr ?out"
    by code_simp
  from export_only_second_subtype_placed[OF a b c d e f g run]
  obtain k s1' where k: "k < length some_palette" "some_palette ! k = (''ITEM_CUBE'', Suc 0)"
    "?out = Block (Some ''Item'')
          (?pre @ Block (Some ''Editor'') ([] @ strip_palette cube_subtype # [] @ s1' # [?mh]) # ?post)"
    by (elim exE conjE)
  from k(3) have strip: "strip_palette cube_subtype
       = Block (Some ''SubType'') [Leaf (Some ''Name'') ''Cube'', Block (Some ''Sounds'') []]"
    by simp
  have five: "some_palette ! 5 = (''ITEM_CUBE'', Suc 0)" by code_simp
  have out: "export_palette (palette_items ''ITEM_CUBE'' some_palette) cube_variant
        (set_item ''type'' (VStr ''ITEM_CUBE'') cube_editor) = Inr ?out"
    unfolding shape by (rule run)
  show ?thesis
    by (intro conjI) (rule a, rule b, rule c, rule d, rule e, rule f, rule g, rule out, rule five,
        rule strip)
qed

text \<open>
  The claim as the spec words it fails: with only subtype 1 of the item on the palette,
  the exported editor block still has the \<^verbatim>\<open>SubType\<close> block of subtype 0, with its name
  and its sounds. What is gone is its \<^verbatim>\<open>Palette\<close> block.
\<close>

theorem export_only_second_subtype_placed_counterexample:
  "(case get_export_data cube_item some_palette ''VER_DEFAULT'' ''BEE2_CLEAN'' [] of
      Inl e \<Rightarrow> False
    | Inr ((new_editor, extra, conf), log) \<Rightarrow>
        find_all [''Editor'', ''SubType''] new_editor
          = [Block (Some ''SubType'') [Leaf (Some ''Name'') ''Cube'', Block (Some ''Sounds'') []],
             Block (Some ''SubType'')
               [Leaf (Some ''Name'') ''Sphere'',
                Block (Some ''Palette'')
                  [Leaf (Some ''Tooltip'') ''SPHERE'',
                   Leaf (Some ''Image'') ''palette/sphere.png'',
                   Leaf (Some ''Position'') ''1 1 0'']]])"
  by code_simp

end
